theory Spec2Isabelle
  imports Complex_Main "HOL-Library.Log_Nat"
begin

section \<open>Exceptions\<close>

text \<open>
  Python exceptions that the helpers can raise are values of \<open>py_error\<close>; a function
  that may raise returns \<open>py_error + 'a\<close>, with \<open>Inl\<close> for the exception.
\<close>

datatype py_error = ZeroDivisionError | IndexError

section \<open>The session and the mapped classes\<close>

text \<open>
  Modelled from the spec: the module \<open>database\<close> that dbhelpers.py imports (the mapped
  classes \<open>List\<close>, \<open>ListMembership\<close>, \<open>Listing\<close>, \<open>AmazonListing\<close>,
  \<open>LinkedProducts\<close>, \<open>Operation\<close>, \<open>AmazonCategory\<close>, and the session factory) is
  not among the sources. The specification describes it as a transactional store with
  predicate queries, staged inserts, staged deletes, an explicit flush that gives staged
  rows their generated ids, and a clock; a row staged in a transactional context is
  visible to the later queries of that context. The definitions of this section are that
  store: objects with an identity, a class and attributes, a session that holds the rows
  of the store, the staged objects and the staged deletions, and queries that flush
  before they read.
\<close>

datatype dtype = List | ListMembership | Listing | AmazonListing | LinkedProducts
  | Operation | AmazonCategory

text \<open>
  Python values that the helpers pass around and store in attributes: \<open>None\<close>,
  booleans, integers, strings, references to mapped objects, dictionaries, collections,
  and the SQL expression \<open>func.now()\<close>, which stands for the clock of the store.
\<close>

datatype val = VNone | VBool bool | VInt int | VStr string | VObj nat
  | VDict "(string \<times> val) list" | VList "val list" | VNow

text \<open>Python's truth value of a value, as \<open>if x\<close> and \<open>x or y\<close> take it.\<close>

fun truthy :: "val \<Rightarrow> bool" where
  "truthy VNone = False"
| "truthy (VBool b) = b"
| "truthy (VInt i) = (i \<noteq> 0)"
| "truthy (VStr s) = (s \<noteq> [])"
| "truthy (VObj r) = True"
| "truthy (VDict d) = (d \<noteq> [])"
| "truthy (VList l) = (l \<noteq> [])"
| "truthy VNow = True"

text \<open>
  A mapped object: \<open>oref\<close> is its identity as a Python object, \<open>dtype\<close> its class,
  \<open>pk\<close> its generated primary key (the column \<open>id\<close>, \<open>None\<close> until the object is
  flushed), and \<open>attrs\<close> its other attributes, \<open>VNone\<close> where unset.
\<close>

record obj =
  oref :: nat
  dtype :: dtype
  pk :: "int option"
  attrs :: "string \<Rightarrow> val"

text \<open>
  The session: \<open>rows\<close> are the rows of the store as the transaction sees them, in the
  order in which a query without \<open>order_by\<close> returns them; \<open>new\<close> are the objects
  staged by \<open>session.add\<close> and \<open>deleted\<close> the identities staged by
  \<open>session.delete\<close>; \<open>next_ref\<close> is the identity of the next Python object and
  \<open>next_id\<close> the next generated primary key. \<open>scorer_calls\<close> counts the calls of
  \<open>build_confidence\<close> made so far.
\<close>

record session =
  rows :: "obj list"
  new :: "obj list"
  deleted :: "nat list"
  next_ref :: nat
  next_id :: int
  scorer_calls :: nat

text \<open>The attribute \<open>id\<close> of an object, as a value.\<close>

definition pk_val :: "obj \<Rightarrow> val" where
  "pk_val x = (case pk x of None \<Rightarrow> VNone | Some i \<Rightarrow> VInt i)"

text \<open>The \<open>id\<close> of the object with identity \<open>r\<close> among \<open>os\<close>.\<close>

definition id_of :: "obj list \<Rightarrow> nat \<Rightarrow> val" where
  "id_of os r =
     (case find (\<lambda>x. oref x = r) os of
        None \<Rightarrow> VNone
      | Some x \<Rightarrow> pk_val x)"

text \<open>
  The relationships of the mapped classes that dbhelpers.py uses are many-to-one, and the
  foreign key of a relationship \<open>rel\<close> is the column \<open>rel_id\<close> (\<open>list\<close> and
  \<open>list_id\<close>, \<open>amz_listing\<close> and \<open>amz_listing_id\<close>, \<open>vnd_listing\<close> and
  \<open>vnd_listing_id\<close>). \<open>relationship_of k\<close> is the relationship whose foreign key is the
  column \<open>k\<close>, if \<open>k\<close> has the form of a foreign key.
\<close>

definition relationship_of :: "string \<Rightarrow> string option" where
  "relationship_of k =
     (let n = length k - 3
      in if drop n k = ''_id'' then Some (take n k) else None)"

text \<open>
  At a flush, a relationship that refers to a mapped object fills its foreign key with the
  id of that object, whatever the column held before.
\<close>

definition sync_fk :: "obj list \<Rightarrow> obj \<Rightarrow> obj" where
  "sync_fk os x =
     x\<lparr>attrs :=
         (\<lambda>k. case relationship_of k of
                None \<Rightarrow> attrs x k
              | Some rel \<Rightarrow>
                  (case attrs x rel of
                     VObj r \<Rightarrow> id_of os r
                   | _ \<Rightarrow> attrs x k))\<rparr>"

text \<open>The INSERT of one staged object: it gets the next generated id, if it has none.\<close>

definition insert_row :: "obj \<Rightarrow> session \<Rightarrow> session" where
  "insert_row x s =
     (if pk x = None
      then s\<lparr>rows := rows s @ [sync_fk (rows s) (x\<lparr>pk := Some (next_id s)\<rparr>)],
             next_id := next_id s + 1\<rparr>
      else s\<lparr>rows := rows s @ [sync_fk (rows s) x]\<rparr>)"

text \<open>
  \<open>session.flush()\<close>: the staged objects are inserted in the order in which they were
  added, then the rows staged for deletion are removed.
\<close>

definition flush :: "session \<Rightarrow> session" where
  "flush s =
     (let s1 = fold insert_row (new s) (s\<lparr>new := []\<rparr>)
      in s1\<lparr>rows := filter (\<lambda>x. oref x \<notin> set (deleted s)) (rows s1), deleted := []\<rparr>)"

text \<open>\<open>session.add(x)\<close> stages \<open>x\<close>, unless the session holds it already.\<close>

definition add :: "obj \<Rightarrow> session \<Rightarrow> session" where
  "add x s =
     (if oref x \<in> oref ` set (rows s @ new s) then s else s\<lparr>new := new s @ [x]\<rparr>)"

text \<open>\<open>session.delete(x)\<close> stages the deletion of \<open>x\<close>.\<close>

definition delete :: "obj \<Rightarrow> session \<Rightarrow> session" where
  "delete x s = s\<lparr>deleted := deleted s @ [oref x]\<rparr>"

text \<open>
  An assignment \<open>x.k = v\<close>. The object is shared with the session, so the assignment
  reaches it there too; the returned object is \<open>x\<close> as the caller sees it afterwards.
\<close>

definition setattr :: "obj \<Rightarrow> string \<Rightarrow> val \<Rightarrow> session \<Rightarrow> obj \<times> session" where
  "setattr x k v s =
     (let upd = (\<lambda>y. if oref y = oref x then y\<lparr>attrs := (attrs y)(k := v)\<rparr> else y)
      in (x\<lparr>attrs := (attrs x)(k := v)\<rparr>, s\<lparr>rows := map upd (rows s), new := map upd (new s)\<rparr>))"

text \<open>The object \<open>x\<close> as the session holds it now (after a flush it has its id).\<close>

definition refresh :: "session \<Rightarrow> obj \<Rightarrow> obj" where
  "refresh s x = (case find (\<lambda>y. oref y = oref x) (rows s @ new s) of None \<Rightarrow> x | Some y \<Rightarrow> y)"

text \<open>\<open>isinstance(x, d)\<close>; \<open>AmazonListing\<close> is a subclass of \<open>Listing\<close>.\<close>

definition is_instance :: "obj \<Rightarrow> dtype \<Rightarrow> bool" where
  "is_instance x d = (dtype x = d \<or> (d = Listing \<and> dtype x = AmazonListing))"

text \<open>
  \<open>session.query(d).filter(crit).first()\<close>: the query flushes the session, then returns
  the first row of class \<open>d\<close> that meets the criterion, or \<open>None\<close>. The criterion is
  evaluated in the flushed session.
\<close>

definition query_first :: "session \<Rightarrow> dtype \<Rightarrow> (session \<Rightarrow> obj \<Rightarrow> bool) \<Rightarrow> obj option \<times> session" where
  "query_first s d crit =
     (let s1 = flush s in (find (\<lambda>x. is_instance x d \<and> crit s1 x) (rows s1), s1))"

text \<open>
  The criterion \<open>filter_by(**kwargs)\<close>: every keyword equals the attribute of that name;
  a keyword whose value is a mapped object is a relationship and compares the foreign key
  with the id of that object.
\<close>

definition filter_by :: "(string \<times> val) list \<Rightarrow> session \<Rightarrow> obj \<Rightarrow> bool" where
  "filter_by kwargs s x =
     list_all (\<lambda>(k, v). case v of
                  VObj r \<Rightarrow> attrs x (k @ ''_id'') = id_of (rows s) r
                | _ \<Rightarrow> attrs x k = v) kwargs"

text \<open>The criterion \<open>filter_by(id=i)\<close>, on the generated primary key.\<close>

definition filter_by_id :: "int \<Rightarrow> session \<Rightarrow> obj \<Rightarrow> bool" where
  "filter_by_id i s x = (pk x = Some i)"

text \<open>
  The constructor call \<open>d(**kwargs)\<close>: a new object, not yet in the session, with the
  keywords as attributes.
\<close>

definition construct :: "dtype \<Rightarrow> (string \<times> val) list \<Rightarrow> session \<Rightarrow> obj \<times> session" where
  "construct d kwargs s =
     (\<lparr>oref = next_ref s, dtype = d, pk = None,
       attrs = fold (\<lambda>(k, v) f. f(k := v)) kwargs (\<lambda>_. VNone)\<rparr>,
      s\<lparr>next_ref := next_ref s + 1\<rparr>)"

section \<open>The helpers of dbhelpers.py\<close>

subsection \<open>get_or_create\<close>

definition get_or_create :: "session \<Rightarrow> dtype \<Rightarrow> (string \<times> val) list \<Rightarrow> obj \<times> session" where
  "get_or_create s d kwargs =
     (case query_first s d (filter_by kwargs) of
        (Some x, s1) \<Rightarrow> (x, s1)
      | (None, s1) \<Rightarrow>
          (let (x, s2) = construct d kwargs s1 in (x, add x s2)))"

subsection \<open>add_ids_to_list and remove_ids_from_list\<close>

text \<open>The \<open>for\<close> loop of \<open>add_ids_to_list\<close>.\<close>

fun add_ids_loop :: "session \<Rightarrow> obj \<Rightarrow> int list \<Rightarrow> session" where
  "add_ids_loop s add_list [] = s"
| "add_ids_loop s add_list (listing_id # rest) =
     (let (m, s1) = get_or_create s ListMembership
                      [(''list'', VObj (oref add_list)), (''listing_id'', VInt listing_id)]
      in add_ids_loop s1 add_list rest)"

text \<open>
  \<open>add_ids_to_list\<close> returns the session it leaves behind and, on the left, the
  exception it raised: \<open>listing_ids[0]\<close> raises \<open>IndexError\<close> on the empty list, before
  the query for the first listing is run.
\<close>

definition add_ids_to_list :: "session \<Rightarrow> int list \<Rightarrow> string \<Rightarrow> (py_error + unit) \<times> session" where
  "add_ids_to_list s listing_ids list_name =
     (let (add_list, s1) = get_or_create s List [(''name'', VStr list_name)];
          s2 = add_ids_loop s1 add_list listing_ids
      in case listing_ids of
           [] \<Rightarrow> (Inl IndexError, s2)
         | i0 # _ \<Rightarrow>
             (let (first, s3) = query_first s2 Listing (filter_by_id i0);
                  is_amazon = (case first of None \<Rightarrow> False | Some f \<Rightarrow> is_instance f AmazonListing);
                  (_, s4) = setattr add_list ''is_amazon'' (VBool is_amazon) s3
              in (Inr (), s4)))"

text \<open>The \<open>for\<close> loop of \<open>remove_ids_from_list\<close>; a mapped object is true in \<open>if\<close>.\<close>

fun remove_ids_loop :: "session \<Rightarrow> obj \<Rightarrow> int list \<Rightarrow> session" where
  "remove_ids_loop s rm_list [] = s"
| "remove_ids_loop s rm_list (listing_id # rest) =
     (let (membership, s1) =
            query_first s ListMembership
              (filter_by [(''list_id'', pk_val rm_list), (''listing_id'', VInt listing_id)])
      in remove_ids_loop (case membership of Some m \<Rightarrow> delete m s1 | None \<Rightarrow> s1) rm_list rest)"

definition remove_ids_from_list :: "session \<Rightarrow> int list \<Rightarrow> string \<Rightarrow> (py_error + unit) \<times> session" where
  "remove_ids_from_list s listing_ids list_name =
     (let (rm_list, s1) = query_first s List (filter_by [(''name'', VStr list_name)])
      in case rm_list of
           None \<Rightarrow> (Inr (), s1)
         | Some l \<Rightarrow>
             if listing_ids = [] then (Inr (), s1)
             else (Inr (), remove_ids_loop s1 l listing_ids))"

subsection \<open>link_products_ids\<close>

text \<open>
  Modelled from the spec: the method \<open>LinkedProducts.build_confidence\<close> is defined in
  the module \<open>database\<close>, not among the sources. The specification describes it as a
  scorer that takes the link and sets its confidence in place. The scorer is the
  parameter \<open>scorer\<close>: any function of the session and the link.
\<close>

definition build_confidence :: "(session \<Rightarrow> obj \<Rightarrow> val) \<Rightarrow> obj \<Rightarrow> session \<Rightarrow> obj \<times> session" where
  "build_confidence scorer link s =
     setattr link ''confidence'' (scorer s link) (s\<lparr>scorer_calls := scorer_calls s + 1\<rparr>)"

definition link_products_ids ::
  "(session \<Rightarrow> obj \<Rightarrow> val) \<Rightarrow> session \<Rightarrow> int \<Rightarrow> int \<Rightarrow> obj \<times> session" where
  "link_products_ids scorer s amz_listing_id vnd_listing_id =
     (let (link, s1) = get_or_create s LinkedProducts
                         [(''amz_listing_id'', VInt amz_listing_id),
                          (''vnd_listing_id'', VInt vnd_listing_id)]
      in if attrs link ''confidence'' = VNone
         then (let s2 = flush s1 in build_confidence scorer (refresh s2 link) s2)
         else (link, s1))"

subsection \<open>get_watch and set_watch\<close>

text \<open>
  Modelled from the spec: the class \<open>Operation\<close> of the module \<open>database\<close>, with its
  attribute \<open>params\<close>, its column \<open>param_string\<close> and its constructor
  \<open>Operation.UpdateAmazonListing\<close>, is not among the sources. By the specification a
  watch is an Operation of kind \<open>UpdateAmazonListing\<close> whose params contain a \<open>repeat\<close>
  key, and the constructor fixes the kind of the operation. So
  \<open>param_string.contains('repeat')\<close> is the test \<open>has_key\<close> on the attribute \<open>params\<close>.
\<close>

definition has_key :: "val \<Rightarrow> string \<Rightarrow> bool" where
  "has_key v k = (case v of VDict d \<Rightarrow> k \<in> fst ` set d | _ \<Rightarrow> False)"

definition get_watch_filter :: "int \<Rightarrow> session \<Rightarrow> obj \<Rightarrow> bool" where
  "get_watch_filter listing_id s x =
     (filter_by [(''listing_id'', VInt listing_id)] s x
      \<and> attrs x ''operation'' = VStr ''UpdateAmazonListing''
      \<and> has_key (attrs x ''params'') ''repeat'')"

definition get_watch :: "session \<Rightarrow> int \<Rightarrow> obj option \<times> session" where
  "get_watch s listing_id = query_first s Operation (get_watch_filter listing_id)"

definition UpdateAmazonListing :: "(string \<times> val) list \<Rightarrow> session \<Rightarrow> obj \<times> session" where
  "UpdateAmazonListing kwargs s =
     construct Operation ((''operation'', VStr ''UpdateAmazonListing'') # kwargs) s"

definition set_watch :: "session \<Rightarrow> int \<Rightarrow> val \<Rightarrow> session" where
  "set_watch s listing_id time =
     (let (watch, s1) = get_watch s listing_id
      in if time = VNone
         then (case watch of Some w \<Rightarrow> delete w s1 | None \<Rightarrow> s1)
         else
           (let (w, s2) = (case watch of
                             Some w \<Rightarrow> (w, s1)
                           | None \<Rightarrow> UpdateAmazonListing
                                       [(''listing_id'', VInt listing_id), (''priority'', VInt 5)] s1);
                (w1, s3) = setattr w ''params'' (VDict [(''log'', VBool True), (''repeat'', time)]) s2;
                (w2, s4) = setattr w1 ''scheduled'' VNow s3
            in add w2 s4))"

subsection \<open>get_or_create_category\<close>

text \<open>
  Modelled from the spec: the column \<open>product_groups\<close> of \<open>AmazonCategory\<close> is declared
  in the module \<open>database\<close>, not among the sources. By the specification it is a set of
  product groups, and \<open>product_groups.contains(g)\<close> holds when the set contains \<open>g\<close>.
\<close>

definition contains :: "string \<Rightarrow> val \<Rightarrow> session \<Rightarrow> obj \<Rightarrow> bool" where
  "contains column v s x = (case attrs x column of VList vs \<Rightarrow> v \<in> set vs | _ \<Rightarrow> False)"

definition get_or_create_category :: "session \<Rightarrow> val \<Rightarrow> val \<Rightarrow> obj \<times> session" where
  "get_or_create_category s productcategory_id product_group =
     (let (category, s1) =
            (if truthy productcategory_id
             then (let (c, s') = get_or_create s AmazonCategory
                                   [(''product_category_id'', productcategory_id)];
                       (c', s'') = setattr c ''name''
                                     (if truthy (attrs c ''name'') then attrs c ''name''
                                      else productcategory_id) s'
                   in (Some c', s''))
             else if truthy product_group
             then query_first s AmazonCategory (contains ''product_groups'' product_group)
             else (None, s))
      in case category of
           Some c \<Rightarrow> (c, s1)
         | None \<Rightarrow> get_or_create s1 AmazonCategory [(''name'', VStr ''Unknown'')])"

section \<open>Python floats\<close>

text \<open>
  A Python \<open>float\<close> is an IEEE 754 double. A finite double is a rational number, and an
  arithmetic operation on doubles returns the exact result rounded to the nearest double,
  ties to the even significand. \<open>to_double\<close> is that rounding, with the 53-bit
  significand of a double. The exponent range is not modelled (no overflow to infinity,
  no subnormal numbers): the floats of this module are seconds since 1970, differences
  of salesranks and quotients of the two. The two zeros of IEEE 754 are one number here;
  Python compares them equal and raises on a division by either.
\<close>

definition pow2 :: "int \<Rightarrow> rat" where
  "pow2 e = (if 0 \<le> e then 2 ^ nat e else 1 / 2 ^ nat (- e))"

text \<open>The exponent of a positive rational \<open>x\<close>: the \<open>e\<close> with \<open>2^e \<le> x < 2^(e+1)\<close>.\<close>

definition ilog2 :: "rat \<Rightarrow> int" where
  "ilog2 x =
     (let (p, q) = quotient_of x;
          d = bitlen p - bitlen q
      in if pow2 d \<le> x then d else d - 1)"

definition round_half_even :: "rat \<Rightarrow> int" where
  "round_half_even q =
     (let n = \<lfloor>q\<rfloor>; f = q - of_int n
      in if f < 1 / 2 then n else if 1 / 2 < f then n + 1 else if even n then n else n + 1)"

definition to_double :: "rat \<Rightarrow> rat" where
  "to_double x =
     (if x = 0 then 0
      else (let u = pow2 (ilog2 \<bar>x\<bar> - 52)
            in sgn x * of_int (round_half_even (\<bar>x\<bar> / u)) * u))"

text \<open>\<open>float(i)\<close>, and the conversion of an \<open>int\<close> operand of a float operation.\<close>

definition float_of_int :: "int \<Rightarrow> rat" where
  "float_of_int i = to_double (of_int i)"

definition float_add :: "rat \<Rightarrow> rat \<Rightarrow> rat" where
  "float_add a b = to_double (a + b)"

definition float_sub :: "rat \<Rightarrow> rat \<Rightarrow> rat" where
  "float_sub a b = to_double (a - b)"

text \<open>Python's \<open>/\<close> on floats, which raises on a zero divisor.\<close>

definition truediv :: "rat \<Rightarrow> rat \<Rightarrow> py_error + rat" where
  "truediv a b = (if b = 0 then Inl ZeroDivisionError else Inr (to_double (a / b)))"

section \<open>Naive datetimes\<close>

text \<open>
  A \<open>datetime\<close> without \<open>tzinfo\<close> is a wall-clock reading, from the year down to the
  microsecond. It is modelled by the number of microseconds from the reading
  1970-01-01 00:00:00 to it; the order of these numbers is the order of the readings,
  which is the order of Python's \<open><\<close> on naive datetimes and of \<open>ORDER BY\<close> on the
  column.

  \<open>datetime.timestamp()\<close> of a naive datetime takes the reading as local time:
  \<open>mktime\<close> gives the POSIX second of the reading's second, by the rules of the
  process's time zone, and the result is the float \<open>seconds + microsecond / 1e6\<close>.
  The time zone is a parameter of the model: \<open>mktime\<close> maps the wall-clock second (counted
  from the reading 1970-01-01 00:00:00) to the POSIX second. Where clocks are set back
  or forward it is neither monotone nor injective.
\<close>

definition datetime_timestamp :: "(int \<Rightarrow> int) \<Rightarrow> int \<Rightarrow> rat" where
  "datetime_timestamp mktime t =
     float_add (float_of_int (mktime (t div 1000000)))
       (to_double (of_int (t mod 1000000) / 1000000))"

text \<open>The time zone UTC: a reading is its own POSIX second.\<close>

definition mktime_utc :: "int \<Rightarrow> int" where
  "mktime_utc wall = wall"

text \<open>
  A \<open>date\<close> is a day number (days from 1970-01-01). The date of a naive datetime, and
  the datetime a date stands for in a comparison with a datetime column: its midnight.
\<close>

definition datetime_date :: "int \<Rightarrow> int" where
  "datetime_date t = t div 86400000000"

definition date_midnight :: "int \<Rightarrow> int" where
  "date_midnight d = d * 86400000000"

section \<open>History analytics (class ProductHistoryStats of dbhelpers.py)\<close>

text \<open>
  One row of the table behind the mapped class \<open>AmzProductHistory\<close>, with the columns
  that \<open>sales_points\<close>, \<open>is_sale\<close> and the two averages read. The column \<open>id\<close> is
  called \<open>row_id\<close> here, since \<open>id\<close> is the identity function of HOL. The column
  \<open>timestamp\<close> holds a naive datetime.
\<close>

record AmzProductHistory =
  row_id :: int
  amz_listing_id :: int
  timestamp :: int
  salesrank :: int

text \<open>The class attribute \<open>_sale_slope = -0.3\<close>: the double nearest to -0.3.\<close>

definition sale_slope :: rat where
  "sale_slope = to_double (- (3 / 10))"

text \<open>
  A \<open>ProductHistoryStats\<close> object holds its session and a listing id. Of the session the
  analytics only read the rows of \<open>AmzProductHistory\<close>, so the object is modelled by
  those rows (in the order the store keeps them) and the listing id.
\<close>

record ProductHistoryStats =
  session_rows :: "AmzProductHistory list"
  listing_id :: int

subsection \<open>sales_points\<close>

text \<open>
  The query of \<open>sales_points\<close>: the pairs (timestamp, salesrank) of the listing's rows,
  ordered by the stored timestamp ascending (rows with equal timestamps in the order of
  the store).
\<close>

definition sales_points_query :: "ProductHistoryStats \<Rightarrow> (int \<times> int) list" where
  "sales_points_query self =
     map (\<lambda>r. (timestamp r, salesrank r))
       (sort_key timestamp
          (filter (\<lambda>r. amz_listing_id r = listing_id self) (session_rows self)))"

text \<open>
  The \<open>for\<close> loop of \<open>sales_points\<close>, with its two local variables \<open>last_point\<close> and
  \<open>sales\<close>. A row of the query is a non-empty tuple, hence true in \<open>if last_point\<close>.
  The difference of the salesranks is an \<open>int\<close>, the difference of the two
  \<open>timestamp()\<close> results a float, and \<open>/\<close> converts the \<open>int\<close> and divides in floats.
\<close>

fun sales_points_loop ::
  "(int \<Rightarrow> int) \<Rightarrow> (int \<times> int) option \<Rightarrow> (int \<times> int) list \<Rightarrow> (int \<times> int) list
     \<Rightarrow> py_error + (int \<times> int) list"
where
  "sales_points_loop mktime last_point sales [] = Inr sales"
| "sales_points_loop mktime last_point sales (point # rest) =
     (case last_point of
        None \<Rightarrow> sales_points_loop mktime (Some point) sales rest
      | Some lp \<Rightarrow>
          (case truediv (float_of_int (snd point - snd lp))
                  (float_sub (datetime_timestamp mktime (fst point))
                     (datetime_timestamp mktime (fst lp))) of
             Inl e \<Rightarrow> Inl e
           | Inr slope \<Rightarrow>
               sales_points_loop mktime (Some point)
                 (if slope < sale_slope then sales @ [point] else sales) rest))"

definition sales_points ::
  "(int \<Rightarrow> int) \<Rightarrow> ProductHistoryStats \<Rightarrow> py_error + (int \<times> int) list" where
  "sales_points mktime self = sales_points_loop mktime None [] (sales_points_query self)"

subsection \<open>is_sale\<close>

text \<open>
  What \<open>print\<close> writes: the format string and the tuple of values it is applied to.
\<close>

type_synonym printed = "string \<times> int list"

text \<open>
  The query of \<open>is_sale\<close>: the rows of the observation's listing with a smaller id,
  ordered by the stored timestamp descending; \<open>first()\<close> takes the head, or \<open>None\<close>.
\<close>

definition is_sale_query :: "ProductHistoryStats \<Rightarrow> AmzProductHistory \<Rightarrow> AmzProductHistory option" where
  "is_sale_query self obs =
     (case sort_key (\<lambda>r. - timestamp r)
             (filter (\<lambda>r. amz_listing_id r = amz_listing_id obs \<and> row_id r < row_id obs)
                (session_rows self)) of
        [] \<Rightarrow> None
      | prior # _ \<Rightarrow> Some prior)"

text \<open>\<open>is_sale\<close> returns its result together with what it printed.\<close>

definition is_sale ::
  "(int \<Rightarrow> int) \<Rightarrow> ProductHistoryStats \<Rightarrow> AmzProductHistory \<Rightarrow> bool \<times> printed list" where
  "is_sale mktime self obs =
     (case is_sale_query self obs of
        Some prior \<Rightarrow>
          (case truediv (float_of_int (salesrank obs - salesrank prior))
                  (float_sub (datetime_timestamp mktime (timestamp obs))
                     (datetime_timestamp mktime (timestamp prior))) of
             Inr slope \<Rightarrow> (slope < sale_slope, [])
           | Inl ZeroDivisionError \<Rightarrow>
               (False, [(''Zero division error: obs.id=%s, prior.id=%s'', [row_id obs, row_id prior])])
           | Inl IndexError \<Rightarrow> (False, []))
      | None \<Rightarrow> (False, []))"

subsection \<open>The averages\<close>

text \<open>
  \<open>func.avg\<close> is computed by the store, over the values of the column \<open>salesrank\<close> in
  the rows that the query selects; \<open>scalar()\<close> returns what the store answers. The
  aggregate is a parameter \<open>avg\<close> of the model: any function of the selected values.
\<close>

definition avg_salesrank :: "(int list \<Rightarrow> 'a) \<Rightarrow> ProductHistoryStats \<Rightarrow> 'a" where
  "avg_salesrank avg self =
     avg (map salesrank
       (filter (\<lambda>r. amz_listing_id r = listing_id self) (session_rows self)))"

text \<open>
  \<open>datetime.date.today()\<close> is the date of the local wall-clock reading \<open>now\<close>, and
  \<open>timedelta(days=90)\<close> is subtracted from the day number.
\<close>

definition date_today :: "int \<Rightarrow> int" where
  "date_today now = datetime_date now"

text \<open>
  The store evaluates \<open>timestamp > start_date\<close>, a datetime column against a date.
  SQL takes the date as its midnight, so that a timestamp which is exactly that midnight
  is not after the date; a store that keeps datetimes as text compares the texts and
  finds it after. The comparison is a parameter \<open>gt\<close> of the model, and \<open>sql_gt\<close> is
  the first of the two.
\<close>

definition sql_gt :: "int \<Rightarrow> int \<Rightarrow> bool" where
  "sql_gt t d \<longleftrightarrow> date_midnight d < t"

definition avg_90day_salesrank ::
  "(int list \<Rightarrow> 'a) \<Rightarrow> (int \<Rightarrow> int \<Rightarrow> bool) \<Rightarrow> int \<Rightarrow> ProductHistoryStats \<Rightarrow> 'a" where
  "avg_90day_salesrank avg gt now self =
     (let start_date = date_today now - 90
      in avg (map salesrank
           (filter (\<lambda>r. amz_listing_id r = listing_id self \<and> gt (timestamp r) start_date)
              (session_rows self))))"

section \<open>The sentences of the specification, as definitions\<close>

text \<open>
  The time delta between an earlier reading \<open>t1\<close> and a later reading \<open>t2\<close>, in
  seconds, as the difference of the two floats that \<open>timestamp()\<close> returns.
\<close>

definition time_delta :: "(int \<Rightarrow> int) \<Rightarrow> int \<Rightarrow> int \<Rightarrow> rat" where
  "time_delta mktime t1 t2 = float_sub (datetime_timestamp mktime t2) (datetime_timestamp mktime t1)"

text \<open>
  The slope of the specification between an earlier point \<open>p1\<close> and a later point
  \<open>p2\<close>, each a pair of a timestamp and a salesrank:
  \<open>(salesrank2 - salesrank1) / (timestamp2 - timestamp1 in seconds)\<close>, in floats.
\<close>

definition slope :: "(int \<Rightarrow> int) \<Rightarrow> int \<times> int \<Rightarrow> int \<times> int \<Rightarrow> rat" where
  "slope mktime p1 p2 =
     to_double (float_of_int (snd p2 - snd p1) / time_delta mktime (fst p1) (fst p2))"

text \<open>
  The later points of the consecutive pairs of \<open>pts\<close> whose slope is strictly less
  than -0.3, in the order of \<open>pts\<close>.
\<close>

definition flagged :: "(int \<Rightarrow> int) \<Rightarrow> (int \<times> int) list \<Rightarrow> (int \<times> int) list" where
  "flagged mktime pts =
     map snd (filter (\<lambda>(p1, p2). slope mktime p1 p2 < to_double (- (3 / 10))) (zip pts (tl pts)))"

text \<open>No two consecutive points of \<open>pts\<close> have a time delta of zero.\<close>

definition nonzero_deltas :: "(int \<Rightarrow> int) \<Rightarrow> (int \<times> int) list \<Rightarrow> bool" where
  "nonzero_deltas mktime pts = successively (\<lambda>p1 p2. time_delta mktime (fst p1) (fst p2) \<noteq> 0) pts"


text \<open>
  An observation of listing \<open>lid\<close> whose timestamp the store finds after today minus
  90 days, today being the date of the reading \<open>now\<close>.
\<close>

definition in_window :: "(int \<Rightarrow> int \<Rightarrow> bool) \<Rightarrow> int \<Rightarrow> int \<Rightarrow> AmzProductHistory \<Rightarrow> bool" where
  "in_window gt now lid r \<longleftrightarrow>
     amz_listing_id r = lid \<and> gt (timestamp r) (datetime_date now - 90)"

text \<open>The arithmetic mean of the specification: null when there is no value.\<close>

definition mean :: "int list \<Rightarrow> rat option" where
  "mean xs = (if xs = [] then None else Some (of_int (sum_list xs) / of_nat (length xs)))"

text \<open>
  Well-formedness of a session: the identity of the next Python object is not the
  identity of an object that the session holds already.
\<close>

definition fresh_refs :: "session \<Rightarrow> bool" where
  "fresh_refs s = list_all (\<lambda>x. oref x < next_ref s) (rows s @ new s)"

text \<open>A session with nothing staged.\<close>

definition clean :: "session \<Rightarrow> bool" where
  "clean s \<longleftrightarrow> new s = [] \<and> deleted s = []"

text \<open>The object that \<open>d(**kwargs)\<close> constructs in the session \<open>s\<close>.\<close>

definition new_obj :: "session \<Rightarrow> dtype \<Rightarrow> (string \<times> val) list \<Rightarrow> obj" where
  "new_obj s d kwargs = fst (construct d kwargs s)"

text \<open>
  An equality constraint on a field gives a value for a column, not a mapped object
  through a relationship.
\<close>

definition plain :: "val \<Rightarrow> bool" where
  "plain v = (case v of VObj r \<Rightarrow> False | _ \<Rightarrow> True)"



text \<open>
  The rows of class \<open>d\<close> that meet the constraints \<open>kwargs\<close> and that a query in the
  session \<open>s\<close> sees.
\<close>

definition visible :: "session \<Rightarrow> dtype \<Rightarrow> (string \<times> val) list \<Rightarrow> obj list" where
  "visible s d kwargs =
     filter (\<lambda>x. is_instance x d \<and> filter_by kwargs (flush s) x) (rows (flush s))"

text \<open>
  The categories whose \<open>product_groups\<close> contain the product group, among the rows
  that a query in the session \<open>s\<close> sees.
\<close>

definition group_matches :: "session \<Rightarrow> val \<Rightarrow> obj list" where
  "group_matches s product_group =
     filter (\<lambda>z. is_instance z AmazonCategory \<and> contains ''product_groups'' product_group (flush s) z)
       (rows (flush s))"

text \<open>
  Well-formedness of a session: the objects that it holds have distinct identities.
\<close>

definition distinct_refs :: "session \<Rightarrow> bool" where
  "distinct_refs s = distinct (map oref (rows s @ new s))"

text \<open>
  A watch, in the words of the specification: an Operation for the listing whose kind is
  \<open>UpdateAmazonListing\<close> and whose params contain a \<open>repeat\<close> key.
\<close>

definition is_watch :: "int \<Rightarrow> obj \<Rightarrow> bool" where
  "is_watch lid z \<longleftrightarrow>
     dtype z = Operation \<and> attrs z ''listing_id'' = VInt lid
     \<and> attrs z ''operation'' = VStr ''UpdateAmazonListing''
     \<and> has_key (attrs z ''params'') ''repeat''"

text \<open>
  The watches of a listing: the rows of the store, as a query in the session \<open>s\<close> sees
  it, that are watches for the listing id.
\<close>

definition watches :: "session \<Rightarrow> int \<Rightarrow> obj list" where
  "watches s lid = filter (is_watch lid) (rows (flush s))"

text \<open>
  A watch after the two assignments of \<open>set_watch\<close>: params overwritten, scheduled
  reset to the clock of the store.
\<close>

definition rearm :: "val \<Rightarrow> obj \<Rightarrow> obj" where
  "rearm time z =
     z\<lparr>attrs := (attrs z)(''params'' := VDict [(''log'', VBool True), (''repeat'', time)],
                            ''scheduled'' := VNow)\<rparr>"

text \<open>
  The attributes that \<open>Operation.UpdateAmazonListing(listing_id=lid, priority=5)\<close>
  gives the new operation.
\<close>

definition watch_kwargs :: "int \<Rightarrow> (string \<times> val) list" where
  "watch_kwargs lid =
     [(''operation'', VStr ''UpdateAmazonListing''), (''listing_id'', VInt lid), (''priority'', VInt 5)]"

text \<open>
  A membership of the list with the id \<open>lv\<close>: a \<open>ListMembership\<close> whose foreign key
  \<open>list_id\<close> is \<open>lv\<close>.
\<close>

definition member_of :: "val \<Rightarrow> obj \<Rightarrow> bool" where
  "member_of lv z \<longleftrightarrow> dtype z = ListMembership \<and> attrs z ''list_id'' = lv"

text \<open>
  A membership of the list with the id \<open>lv\<close> for the listing \<open>x\<close>.
\<close>

definition member_for :: "val \<Rightarrow> int \<Rightarrow> obj \<Rightarrow> bool" where
  "member_for lv x z \<longleftrightarrow> member_of lv z \<and> attrs z ''listing_id'' = VInt x"

text \<open>
  A \<open>List\<close> with the name \<open>list_name\<close>.
\<close>

definition named_list :: "string \<Rightarrow> obj \<Rightarrow> bool" where
  "named_list list_name z \<longleftrightarrow> dtype z = List \<and> attrs z ''name'' = VStr list_name"

text \<open>
  The id of the list with the name \<open>list_name\<close>: the id of the first row of that name
  which a query in the session \<open>s\<close> sees. When the store has no list of that name, it
  is the id that the store will generate next, which the list gets when
  \<open>add_ids_to_list\<close> creates it.
\<close>

definition list_key :: "session \<Rightarrow> string \<Rightarrow> val" where
  "list_key s list_name =
     (case find (named_list list_name) (rows (flush s)) of
        None \<Rightarrow> VInt (next_id (flush s))
      | Some l \<Rightarrow> pk_val l)"

text \<open>
  The memberships of the list \<open>list_name\<close> that a query in the session \<open>s\<close> sees.
\<close>

definition list_memberships :: "session \<Rightarrow> string \<Rightarrow> obj list" where
  "list_memberships s list_name = filter (member_of (list_key s list_name)) (rows (flush s))"

text \<open>
  The rows \<open>R\<close> without the first membership of the list \<open>lv\<close> for the listing
  \<open>x\<close>, if there is one.
\<close>

definition del_first :: "val \<Rightarrow> int \<Rightarrow> obj list \<Rightarrow> obj list" where
  "del_first lv x R =
     (case find (member_for lv x) R of
        None \<Rightarrow> R
      | Some m \<Rightarrow> filter (\<lambda>z. oref z \<noteq> oref m) R)"

text \<open>
  A well-formed session in which the object \<open>r\<close> is a row with the id \<open>lv\<close>.
\<close>

definition ready :: "session \<Rightarrow> nat \<Rightarrow> val \<Rightarrow> bool" where
  "ready s r lv \<longleftrightarrow>
     fresh_refs s \<and> distinct_refs s
     \<and> list_ex (\<lambda>l. oref l = r \<and> pk_val l = lv) (rows (flush s))"

text \<open>
  The assignment \<open>add_list.is_amazon = v\<close>, on the row that is the object \<open>r\<close>.
\<close>

definition set_is_amazon :: "nat \<Rightarrow> val \<Rightarrow> obj \<Rightarrow> obj" where
  "set_is_amazon r v z = (if oref z = r then z\<lparr>attrs := (attrs z)(''is_amazon'' := v)\<rparr> else z)"

section \<open>Concrete inputs\<close>

text \<open>The pair of the specification: (0 s, rank 1000) and (1 s, rank 1).\<close>

definition history_1000_1 :: ProductHistoryStats where
  "history_1000_1 =
     \<lparr>session_rows =
        [\<lparr>row_id = 1, amz_listing_id = 7, timestamp = 0, salesrank = 1000\<rparr>,
         \<lparr>row_id = 2, amz_listing_id = 7, timestamp = 1000000, salesrank = 1\<rparr>],
      listing_id = 7\<rparr>"


text \<open>Two observations of one listing with the same timestamp.\<close>

definition history_same_time :: ProductHistoryStats where
  "history_same_time =
     \<lparr>session_rows =
        [\<lparr>row_id = 1, amz_listing_id = 7, timestamp = 0, salesrank = 1000\<rparr>,
         \<lparr>row_id = 2, amz_listing_id = 7, timestamp = 0, salesrank = 1\<rparr>],
      listing_id = 7\<rparr>"



text \<open>
  Two observations at 0.000001 s and 10.000001 s with ranks 13 and 10: the exact slope is
  -0.3, and so is the slope in floats, the float time delta being 10.0.
\<close>

definition history_rounding :: ProductHistoryStats where
  "history_rounding =
     \<lparr>session_rows =
        [\<lparr>row_id = 1, amz_listing_id = 7, timestamp = 1, salesrank = 13\<rparr>,
         \<lparr>row_id = 2, amz_listing_id = 7, timestamp = 10000001, salesrank = 10\<rparr>],
      listing_id = 7\<rparr>"



text \<open>
  A wall-clock reading in day 100 (at 00:16:40), an observation timestamped 91 days
  before it and one timestamped 5 days before it.
\<close>

definition now_day_100 :: int where
  "now_day_100 = 100 * 86400000000 + 1000000000"

definition obs_91_days_ago :: AmzProductHistory where
  "obs_91_days_ago =
     \<lparr>row_id = 1, amz_listing_id = 7, timestamp = 9 * 86400000000 + 1000000000, salesrank = 10\<rparr>"

definition obs_5_days_ago :: AmzProductHistory where
  "obs_5_days_ago =
     \<lparr>row_id = 2, amz_listing_id = 7, timestamp = 95 * 86400000000 + 1000000000, salesrank = 50\<rparr>"

text \<open>A session on an empty store.\<close>

definition empty_session :: session where
  "empty_session = \<lparr>rows = [], new = [], deleted = [], next_ref = 0, next_id = 1, scorer_calls = 0\<rparr>"


text \<open>
  A store with the list \<open>L\<close> (id 1) and one membership of it, for the listing 9.
\<close>

definition member_session :: session where
  "member_session =
     \<lparr>rows = [\<lparr>oref = 0, dtype = List, pk = Some 1, attrs = (\<lambda>_. VNone)(''name'' := VStr ''L'')\<rparr>,
              \<lparr>oref = 1, dtype = ListMembership, pk = Some 2,
               attrs = (\<lambda>_. VNone)(''list_id'' := VInt 1, ''listing_id'' := VInt 9)\<rparr>],
      new = [], deleted = [], next_ref = 2, next_id = 3, scorer_calls = 0\<rparr>"

text \<open>Two scorers that disagree: one gives every link the confidence 3, the other 9.\<close>

definition scorer_3 :: "session \<Rightarrow> obj \<Rightarrow> val" where
  "scorer_3 s link = VInt 3"

definition scorer_9 :: "session \<Rightarrow> obj \<Rightarrow> val" where
  "scorer_9 s link = VInt 9"

section \<open>Properties of the floats\<close>

lemma to_double_0: "to_double 0 = 0"
  by (simp add: to_double_def)

lemma time_delta_same: "time_delta mktime t t = 0"
  by (simp add: time_delta_def float_sub_def to_double_0)

section \<open>Properties of sales_points\<close>

lemma flagged_Cons2:
  "flagged mktime (p # q # pts) =
   (if slope mktime p q < to_double (- (3 / 10)) then [q] else []) @ flagged mktime (q # pts)"
  by (simp add: flagged_def)

lemma sales_points_loop_ok:
  "nonzero_deltas mktime (lp # pts) \<Longrightarrow>
   sales_points_loop mktime (Some lp) sales pts = Inr (sales @ flagged mktime (lp # pts))"
proof (induction pts arbitrary: lp sales)
  case Nil
  then show ?case by (simp add: flagged_def)
next
  case (Cons q pts)
  from Cons.prems have ne: "time_delta mktime (fst lp) (fst q) \<noteq> 0"
    and rest: "nonzero_deltas mktime (q # pts)"
    by (simp_all add: nonzero_deltas_def)
  from ne have t: "truediv (float_of_int (snd q - snd lp))
                  (float_sub (datetime_timestamp mktime (fst q))
                     (datetime_timestamp mktime (fst lp))) = Inr (slope mktime lp q)"
    by (simp add: truediv_def slope_def time_delta_def)
  show ?case
    using Cons.IH [OF rest]
    by (simp only: sales_points_loop.simps option.case t sum.case flagged_Cons2 sale_slope_def)
       simp
qed


lemma sales_points_loop_None_ok:
  "nonzero_deltas mktime pts \<Longrightarrow> sales_points_loop mktime None [] pts = Inr (flagged mktime pts)"
  by (cases pts) (simp_all add: sales_points_loop_ok flagged_def)


lemma sorted_successively_less:
  fixes ks :: "int list"
  shows "sorted ks \<Longrightarrow> successively (\<noteq>) ks \<Longrightarrow> successively (<) ks"
  by (induction ks rule: induct_list012) auto

lemma distinct_successively:
  fixes ks :: "int list"
  shows "distinct ks \<Longrightarrow> successively (\<noteq>) ks"
  by (induction ks rule: induct_list012) auto

lemma sorted_successively_distinct:
  fixes ks :: "int list"
  assumes "sorted ks"
  shows "successively (\<noteq>) ks \<longleftrightarrow> distinct ks"
proof
  assume "successively (\<noteq>) ks"
  with assms have "successively (<) ks"
    by (rule sorted_successively_less)
  then have "sorted_wrt (<) ks"
    by (simp add: successively_conv_sorted_wrt)
  then show "distinct ks"
    by (simp add: strict_sorted_iff)
next
  assume "distinct ks"
  then show "successively (\<noteq>) ks"
    by (rule distinct_successively)
qed

lemma query_fst:
  "map fst (sales_points_query self) =
   map timestamp (sort_key timestamp
     (filter (\<lambda>r. amz_listing_id r = listing_id self) (session_rows self)))"
  by (simp add: sales_points_query_def comp_def)

lemma query_sorted: "sorted (map fst (sales_points_query self))"
  by (simp only: query_fst sorted_sort_key)


lemma nonzero_deltas_successively:
  "nonzero_deltas mktime pts \<Longrightarrow> successively (\<noteq>) (map fst pts)"
proof -
  assume "nonzero_deltas mktime pts"
  then have "successively (\<lambda>p1 p2. time_delta mktime (fst p1) (fst p2) \<noteq> 0) pts"
    by (simp only: nonzero_deltas_def)
  then have "successively (\<lambda>p1 p2. fst p1 \<noteq> fst p2) pts"
    by (rule successively_mono) (auto simp add: time_delta_same)
  then show ?thesis
    by (simp add: successively_map)
qed


lemma flagged_subset_tl: "set (flagged mktime pts) \<subseteq> set (tl pts)"
proof -
  have "set (map snd (filter P (zip pts (tl pts)))) \<subseteq> set (tl pts)" for P
    by (auto dest: set_zip_rightD)
  then show ?thesis by (simp only: flagged_def)
qed

lemma flagged_sorted:
  "sorted (map fst pts) \<Longrightarrow> sorted (map fst (flagged mktime pts))"
proof (induction pts rule: induct_list012)
  case 1
  then show ?case by (simp add: flagged_def)
next
  case (2 x)
  then show ?case by (simp add: flagged_def)
next
  case (3 p q pts)
  from 3 have IH: "sorted (map fst (flagged mktime (q # pts)))" by simp
  have sub: "set (flagged mktime (q # pts)) \<subseteq> set pts"
    using flagged_subset_tl [of mktime "q # pts"] by simp
  from "3.prems" have "\<forall>x\<in>set pts. fst q \<le> fst x" by simp
  with sub have "\<forall>x\<in>set (flagged mktime (q # pts)). fst q \<le> fst x" by blast
  with IH show ?case by (simp add: flagged_Cons2)
qed

lemma hd_not_flagged:
  assumes "distinct (map fst pts)" "pts \<noteq> []"
  shows "hd pts \<notin> set (flagged mktime pts)"
proof -
  from assms obtain p ps where pts: "pts = p # ps" by (cases pts) auto
  with assms have "p \<notin> set ps" by (auto simp add: image_iff)
  with flagged_subset_tl [of mktime pts] pts show ?thesis by auto
qed

text \<open>
  What \<open>sales_points\<close> returns when it returns: on a history without a zero time delta
  between consecutive observations, the later points of the consecutive pairs (in
  ascending order of the stored timestamps) whose float slope is below the float -0.3.
\<close>

lemma sales_points_returns_flagged:
  assumes "nonzero_deltas mktime (sales_points_query self)"
  shows "sales_points mktime self = Inr (flagged mktime (sales_points_query self))"
    and "sorted (map fst (sales_points_query self))"
    and "sorted (map fst (flagged mktime (sales_points_query self)))"
    and "sales_points_query self \<noteq> [] \<Longrightarrow>
            hd (sales_points_query self) \<notin> set (flagged mktime (sales_points_query self))"
proof -
  show "sales_points mktime self = Inr (flagged mktime (sales_points_query self))"
    using assms by (simp add: sales_points_def sales_points_loop_None_ok)
  show b: "sorted (map fst (sales_points_query self))"
    by (rule query_sorted)
  show "sorted (map fst (flagged mktime (sales_points_query self)))"
    by (rule flagged_sorted [OF b])
  have "distinct (map fst (sales_points_query self))"
    using nonzero_deltas_successively [OF assms] sorted_successively_distinct [OF b]
    by simp
  then show "sales_points_query self \<noteq> [] \<Longrightarrow>
            hd (sales_points_query self) \<notin> set (flagged mktime (sales_points_query self))"
    by (simp add: hd_not_flagged)
qed

text \<open>
  The pair of the specification in the time zone UTC: the second point is flagged. And
  the pair at 0.000001 s and 10.000001 s with ranks 13 and 10: the float time delta is
  10.0 and the float slope is the float -0.3, so nothing is flagged.
\<close>

lemma sales_points_history_1000_1:
  "sales_points mktime_utc history_1000_1 = Inr [(1000000, 1)]"
  by code_simp

lemma sales_points_history_rounding:
  "sales_points mktime_utc history_rounding = Inr []"
  by code_simp

text \<open>
  Claim C1 says that \<open>sales_points\<close> returns the flagged points for every listing
  history. For the history of one listing with the observations (T, rank 1000) and
  (T, rank 1) at one and the same timestamp T, \<open>sales_points\<close> raises
  \<open>ZeroDivisionError\<close> in every time zone and returns nothing: the division of the loop
  has no guard, whereas \<open>is_sale\<close> catches the same error.
\<close>

theorem sales_points_same_timestamp_raises:
  "sales_points mktime history_same_time = Inl ZeroDivisionError"
  by (simp add: sales_points_def sales_points_query_def history_same_time_def truediv_def
        float_sub_def to_double_0)




section \<open>Properties of is_sale\<close>









text \<open>
  The observation at 10.000001 s with rank 10 after the one at 0.000001 s with rank 13:
  the float slope is the float -0.3, which is not below the threshold.
\<close>

lemma is_sale_history_rounding:
  "is_sale mktime_utc history_rounding
     \<lparr>row_id = 2, amz_listing_id = 7, timestamp = 10000001, salesrank = 10\<rparr> = (False, [])"
  by code_simp

section \<open>Properties of the averages\<close>

lemma days_91_before_window:
  "now - 91 * 86400000000 < date_midnight (datetime_date now - 90)"
proof -
  have "now mod 86400000000 < 86400000000"
    by simp
  moreover have "now = now div 86400000000 * 86400000000 + now mod 86400000000"
    by simp
  ultimately show ?thesis
    by (simp add: date_midnight_def datetime_date_def algebra_simps)
qed

lemma avg_90day_in_window:
  "avg_90day_salesrank avg gt now self =
   avg (map salesrank (filter (in_window gt now (listing_id self)) (session_rows self)))"
  by (simp add: avg_90day_salesrank_def Let_def in_window_def [abs_def] date_today_def)

lemma avg_90day_outside:
  "\<not> in_window gt now lid obs \<Longrightarrow>
   avg_90day_salesrank avg gt now \<lparr>session_rows = xs @ obs # ys, listing_id = lid\<rparr> =
   avg_90day_salesrank avg gt now \<lparr>session_rows = xs @ ys, listing_id = lid\<rparr>"
  by (simp add: avg_90day_in_window)

lemma avg_90day_inside:
  "in_window gt now lid obs \<Longrightarrow>
   avg_90day_salesrank avg gt now \<lparr>session_rows = xs @ obs # ys, listing_id = lid\<rparr> =
   avg (map salesrank (filter (in_window gt now lid) xs) @
        salesrank obs # map salesrank (filter (in_window gt now lid) ys))"
  by (simp add: avg_90day_in_window)

lemma avg_salesrank_inside:
  "amz_listing_id obs = lid \<Longrightarrow>
   avg_salesrank avg \<lparr>session_rows = xs @ obs # ys, listing_id = lid\<rparr> =
   avg (map salesrank (filter (\<lambda>r. amz_listing_id r = lid) xs) @
        salesrank obs # map salesrank (filter (\<lambda>r. amz_listing_id r = lid) ys))"
  by (simp add: avg_salesrank_def)

text \<open>
  Claim C8. \<open>avg_90day_salesrank\<close> averages only the observations of the listing
  whose timestamp is strictly after today minus 90 days, today being the local date: the
  store's aggregate gets the salesranks of exactly these rows. The store's comparison of
  the column with the date follows the order of time, except that stores differ on a
  timestamp that is exactly the midnight of the date. An observation before the midnight
  that starts today minus 90 days does not change the result, an observation after it is
  among the values averaged, an observation at that very midnight does not change the
  result when the store compares as SQL does, and an observation timestamped 91 days
  before the wall-clock reading \<open>now\<close> is left out of \<open>avg_90day_salesrank\<close> while
  it is among the values that \<open>avg_salesrank\<close> averages.
\<close>

theorem avg_90day_window:
  assumes listing: "amz_listing_id obs = lid"
    and store: "\<And>t d. t \<noteq> date_midnight d \<Longrightarrow> gt t d = (date_midnight d < t)"
  shows "(timestamp obs < date_midnight (datetime_date now - 90) \<longrightarrow>
           avg_90day_salesrank avg gt now \<lparr>session_rows = xs @ obs # ys, listing_id = lid\<rparr> =
           avg_90day_salesrank avg gt now \<lparr>session_rows = xs @ ys, listing_id = lid\<rparr>)
       \<and> (date_midnight (datetime_date now - 90) < timestamp obs \<longrightarrow>
           avg_90day_salesrank avg gt now \<lparr>session_rows = xs @ obs # ys, listing_id = lid\<rparr> =
           avg (map salesrank (filter (in_window gt now lid) xs) @
                salesrank obs # map salesrank (filter (in_window gt now lid) ys)))
       \<and> (timestamp obs = date_midnight (datetime_date now - 90) \<longrightarrow>
           avg_90day_salesrank avg sql_gt now \<lparr>session_rows = xs @ obs # ys, listing_id = lid\<rparr> =
           avg_90day_salesrank avg sql_gt now \<lparr>session_rows = xs @ ys, listing_id = lid\<rparr>)
       \<and> (timestamp obs = now - 91 * 86400000000 \<longrightarrow>
           avg_90day_salesrank avg gt now \<lparr>session_rows = xs @ obs # ys, listing_id = lid\<rparr> =
           avg_90day_salesrank avg gt now \<lparr>session_rows = xs @ ys, listing_id = lid\<rparr>)
       \<and> avg_salesrank avg \<lparr>session_rows = xs @ obs # ys, listing_id = lid\<rparr> =
           avg (map salesrank (filter (\<lambda>r. amz_listing_id r = lid) xs) @
                salesrank obs # map salesrank (filter (\<lambda>r. amz_listing_id r = lid) ys))"
proof -
  have out: "avg_90day_salesrank avg gt now \<lparr>session_rows = xs @ obs # ys, listing_id = lid\<rparr> =
           avg_90day_salesrank avg gt now \<lparr>session_rows = xs @ ys, listing_id = lid\<rparr>"
    if "timestamp obs < date_midnight (datetime_date now - 90)"
    using that store [of "timestamp obs" "datetime_date now - 90"]
    by (intro avg_90day_outside) (simp add: in_window_def)
  have inw: "avg_90day_salesrank avg gt now \<lparr>session_rows = xs @ obs # ys, listing_id = lid\<rparr> =
           avg (map salesrank (filter (in_window gt now lid) xs) @
                salesrank obs # map salesrank (filter (in_window gt now lid) ys))"
    if "date_midnight (datetime_date now - 90) < timestamp obs"
    using that listing store [of "timestamp obs" "datetime_date now - 90"]
    by (intro avg_90day_inside) (simp add: in_window_def)
  have old: "avg_90day_salesrank avg gt now \<lparr>session_rows = xs @ obs # ys, listing_id = lid\<rparr> =
           avg_90day_salesrank avg gt now \<lparr>session_rows = xs @ ys, listing_id = lid\<rparr>"
    if "timestamp obs = now - 91 * 86400000000"
    using that days_91_before_window [of now] by (intro out) simp
  have edge: "avg_90day_salesrank avg sql_gt now \<lparr>session_rows = xs @ obs # ys, listing_id = lid\<rparr> =
           avg_90day_salesrank avg sql_gt now \<lparr>session_rows = xs @ ys, listing_id = lid\<rparr>"
    if "timestamp obs = date_midnight (datetime_date now - 90)"
    using that by (intro avg_90day_outside) (simp add: in_window_def sql_gt_def)
  note all = avg_salesrank_inside [OF listing, of avg xs ys]
  from out inw edge old all show ?thesis by blast
qed

text \<open>
  The theorem in day 100 with the comparison of SQL and the arithmetic mean as the
  aggregate, one observation timestamped 91 days ago (rank 10) and one timestamped 5
  days ago (rank 50).
\<close>

theorem avg_90day_window_witness:
  "amz_listing_id obs_91_days_ago = 7
   \<and> timestamp obs_91_days_ago = now_day_100 - 91 * 86400000000
   \<and> avg_90day_salesrank mean sql_gt now_day_100
        \<lparr>session_rows = [obs_91_days_ago, obs_5_days_ago], listing_id = 7\<rparr> = Some 50
   \<and> avg_salesrank mean \<lparr>session_rows = [obs_91_days_ago, obs_5_days_ago], listing_id = 7\<rparr> = Some 30"
proof -
  have l: "amz_listing_id obs_91_days_ago = 7"
    by (simp add: obs_91_days_ago_def)
  have g: "sql_gt t d = (date_midnight d < t)" if "t \<noteq> date_midnight d" for t d
    by (simp add: sql_gt_def)
  have t: "timestamp obs_91_days_ago = now_day_100 - 91 * 86400000000"
    by (simp add: obs_91_days_ago_def now_day_100_def)
  have r: "avg_90day_salesrank mean sql_gt now_day_100
             \<lparr>session_rows = [obs_5_days_ago], listing_id = 7\<rparr> = Some 50"
    by code_simp
  have f: "filter (\<lambda>r. amz_listing_id r = 7) [obs_5_days_ago] = [obs_5_days_ago]"
    by (simp add: obs_5_days_ago_def)
  from avg_90day_window [OF l g, of now_day_100 mean "[]" "[obs_5_days_ago]"] t r
  have "avg_90day_salesrank mean sql_gt now_day_100
        \<lparr>session_rows = [obs_91_days_ago, obs_5_days_ago], listing_id = 7\<rparr> = Some 50"
    and "avg_salesrank mean \<lparr>session_rows = [obs_91_days_ago, obs_5_days_ago], listing_id = 7\<rparr> =
         mean (map salesrank (filter (\<lambda>r. amz_listing_id r = 7) []) @
                salesrank obs_91_days_ago #
                map salesrank (filter (\<lambda>r. amz_listing_id r = 7) [obs_5_days_ago]))"
    by simp_all
  then show ?thesis using l t
    by (simp add: f) (simp add: obs_5_days_ago_def obs_91_days_ago_def mean_def)
qed

section \<open>Properties of the session\<close>

lemma sync_fk_oref [simp]: "oref (sync_fk os x) = oref x"
  by (simp add: sync_fk_def)

lemma sync_fk_dtype [simp]: "dtype (sync_fk os x) = dtype x"
  by (simp add: sync_fk_def)

lemma sync_fk_pk [simp]: "pk (sync_fk os x) = pk x"
  by (simp add: sync_fk_def)

lemma insert_row_fields [simp]:
  "new (insert_row x s) = new s"
  "deleted (insert_row x s) = deleted s"
  "next_ref (insert_row x s) = next_ref s"
  "scorer_calls (insert_row x s) = scorer_calls s"
  by (simp_all add: insert_row_def)

lemma fold_insert_row_fields [simp]:
  "new (fold insert_row xs s) = new s"
  "deleted (fold insert_row xs s) = deleted s"
  "next_ref (fold insert_row xs s) = next_ref s"
  "scorer_calls (fold insert_row xs s) = scorer_calls s"
  by (induction xs arbitrary: s) simp_all

lemma insert_row_orefs: "map oref (rows (insert_row x s)) = map oref (rows s) @ [oref x]"
  by (simp add: insert_row_def)

lemma fold_insert_row_orefs:
  "map oref (rows (fold insert_row xs s)) = map oref (rows s) @ map oref xs"
  by (induction xs arbitrary: s) (simp_all add: insert_row_orefs)

lemma flush_fields [simp]:
  "new (flush s) = []"
  "deleted (flush s) = []"
  "next_ref (flush s) = next_ref s"
  "scorer_calls (flush s) = scorer_calls s"
  by (simp_all add: flush_def Let_def)

lemma flush_clean: "clean s \<Longrightarrow> flush s = s"
  by (simp add: flush_def clean_def)

lemma clean_flush [simp]: "clean (flush s)"
  by (simp add: clean_def)

lemma flush_flush [simp]: "flush (flush s) = flush s"
  by (rule flush_clean) simp

lemma flush_orefs_subset: "oref ` set (rows (flush s)) \<subseteq> oref ` set (rows s @ new s)"
proof -
  have "set (map oref (rows (flush s))) \<subseteq> set (map oref (rows (fold insert_row (new s) (s\<lparr>new := []\<rparr>))))"
    by (auto simp add: flush_def Let_def)
  also have "\<dots> = set (map oref (rows s) @ map oref (new s))"
    by (simp only: fold_insert_row_orefs) simp
  finally show ?thesis by (simp add: image_Un)
qed

lemma fresh_refs_flush: "fresh_refs s \<Longrightarrow> fresh_refs (flush s)"
proof -
  assume "fresh_refs s"
  then have "\<forall>r\<in>oref ` set (rows s @ new s). r < next_ref s"
    by (auto simp add: fresh_refs_def list_all_iff)
  with flush_orefs_subset [of s] have "\<forall>r\<in>oref ` set (rows (flush s)). r < next_ref s"
    by blast
  then show ?thesis
    by (auto simp add: fresh_refs_def list_all_iff)
qed

lemma query_first_flush: "query_first (flush s) d crit = query_first s d crit"
  by (simp add: query_first_def)

lemma get_or_create_flush: "get_or_create (flush s) d kwargs = get_or_create s d kwargs"
  by (simp add: get_or_create_def query_first_flush)

lemma snd_query_first [simp]: "snd (query_first s d crit) = flush s"
  by (simp add: query_first_def Let_def)

lemma query_first_clean:
  "clean s \<Longrightarrow> query_first s d crit = (find (\<lambda>x. is_instance x d \<and> crit s x) (rows s), s)"
  by (simp add: query_first_def flush_clean)

lemma new_obj_fields [simp]:
  "oref (new_obj s d kwargs) = next_ref s"
  "dtype (new_obj s d kwargs) = d"
  "pk (new_obj s d kwargs) = None"
  by (simp_all add: new_obj_def construct_def)

lemma get_or_create_clean:
  assumes "clean s" "fresh_refs s"
  shows "get_or_create s d kwargs =
         (case find (\<lambda>x. is_instance x d \<and> filter_by kwargs s x) (rows s) of
            Some x \<Rightarrow> (x, s)
          | None \<Rightarrow> (new_obj s d kwargs,
                      s\<lparr>new := [new_obj s d kwargs], next_ref := next_ref s + 1\<rparr>))"
proof -
  from assms(2) have "next_ref s \<notin> oref ` set (rows s @ new s)"
    by (auto simp add: fresh_refs_def list_all_iff)
  with assms(1) show ?thesis
    by (auto simp add: get_or_create_def query_first_clean new_obj_def construct_def add_def
          clean_def split: option.splits)
qed

lemma flush_one_new:
  assumes "new s = [x]" "deleted s = []" "pk x = None"
  shows "flush s = s\<lparr>rows := rows s @ [sync_fk (rows s) (x\<lparr>pk := Some (next_id s)\<rparr>)],
                     new := [], next_id := next_id s + 1\<rparr>"
  using assms by (simp add: flush_def insert_row_def)

lemma flush_only_deleted:
  assumes "new s = []"
  shows "flush s = s\<lparr>rows := filter (\<lambda>x. oref x \<notin> set (deleted s)) (rows s), deleted := []\<rparr>"
  using assms by (simp add: flush_def)


lemma filter_by_plain:
  assumes "\<forall>(k, v)\<in>set kwargs. plain v"
  shows "filter_by kwargs s x = (\<forall>(k, v)\<in>set kwargs. attrs x k = v)"
proof -
  have "(case v of VObj r \<Rightarrow> attrs x (k @ ''_id'') = id_of (rows s) r | _ \<Rightarrow> attrs x k = v)
        = (attrs x k = v)" if "(k, v) \<in> set kwargs" for k v
    using assms that by (auto simp add: plain_def split: val.splits)
  then show ?thesis
    by (auto simp add: filter_by_def list_all_iff)
qed

lemma filter_by_plain_session:
  "\<forall>(k, v)\<in>set kwargs. plain v \<Longrightarrow> filter_by kwargs s x = filter_by kwargs s' x"
  by (simp only: filter_by_plain)

lemma fold_upd_notin:
  "k \<notin> fst ` set kwargs \<Longrightarrow> fold (\<lambda>(k, v) f. f(k := v)) kwargs f0 k = f0 k"
  by (induction kwargs arbitrary: f0) auto

lemma fold_upd_in:
  "distinct (map fst kwargs) \<Longrightarrow> (k, v) \<in> set kwargs \<Longrightarrow>
   fold (\<lambda>(k, v) f. f(k := v)) kwargs f0 k = v"
proof (induction kwargs arbitrary: f0)
  case Nil
  then show ?case by simp
next
  case (Cons kv kwargs)
  show ?case
  proof (cases "(k, v) = kv")
    case True
    then have kv: "kv = (k, v)" by simp
    from Cons.prems(1) have "k \<notin> fst ` set kwargs" unfolding kv by simp
    then have "fold (\<lambda>(k, v) f. f(k := v)) kwargs (f0(k := v)) k = (f0(k := v)) k"
      by (rule fold_upd_notin)
    then show ?thesis unfolding kv
      by (simp only: fold_simps comp_apply prod.case fun_upd_same)
  next
    case False
    with Cons show ?thesis by auto
  qed
qed

lemma new_obj_attrs_in:
  "distinct (map fst kwargs) \<Longrightarrow> (k, v) \<in> set kwargs \<Longrightarrow> attrs (new_obj s d kwargs) k = v"
  by (simp add: new_obj_def construct_def fold_upd_in)

lemma new_obj_attrs_notin:
  "k \<notin> fst ` set kwargs \<Longrightarrow> attrs (new_obj s d kwargs) k = VNone"
  by (simp add: new_obj_def construct_def fold_upd_notin)

lemma new_obj_plain:
  assumes "distinct (map fst kwargs)" "\<forall>(k, v)\<in>set kwargs. plain v"
  shows "plain (attrs (new_obj s d kwargs) k)"
proof (cases "k \<in> fst ` set kwargs")
  case True
  then obtain v where kv: "(k, v) \<in> set kwargs" by auto
  with assms(2) have "plain v" by auto
  with new_obj_attrs_in [OF assms(1) kv] show ?thesis by simp
next
  case False
  then show ?thesis by (simp add: new_obj_attrs_notin plain_def)
qed

lemma relationship_of_iff: "relationship_of k = Some rel \<longleftrightarrow> k = rel @ ''_id''"
proof
  assume "relationship_of k = Some rel"
  then have "drop (length k - 3) k = ''_id''" and "rel = take (length k - 3) k"
    by (simp_all add: relationship_of_def Let_def split: if_splits)
  then have "rel @ ''_id'' = take (length k - 3) k @ drop (length k - 3) k"
    by (simp only:)
  then show "k = rel @ ''_id''"
    by (simp only: append_take_drop_id)
next
  assume "k = rel @ ''_id''"
  then show "relationship_of k = Some rel"
    by (simp add: relationship_of_def)
qed

lemma sync_fk_attrs:
  "attrs (sync_fk os x) k =
     (case relationship_of k of
        None \<Rightarrow> attrs x k
      | Some rel \<Rightarrow> (case attrs x rel of VObj r \<Rightarrow> id_of os r | _ \<Rightarrow> attrs x k))"
  by (simp add: sync_fk_def)

lemma sync_fk_plain:
  assumes "\<And>k. plain (attrs x k)"
  shows "sync_fk os x = x"
proof -
  have "attrs (sync_fk os x) k = attrs x k" for k
  proof (cases "relationship_of k")
    case None
    then show ?thesis by (simp add: sync_fk_attrs)
  next
    case (Some rel)
    with assms [of rel] show ?thesis
      by (simp add: sync_fk_attrs plain_def split: val.splits)
  qed
  then have "attrs (sync_fk os x) = attrs x"
    by (rule ext)
  then show ?thesis
    by (intro obj.equality) simp_all
qed

lemma is_instance_new_obj [simp]: "is_instance (new_obj s d kwargs) d"
  by (simp add: is_instance_def)

lemma find_None_filter: "find P xs = None \<longleftrightarrow> filter P xs = []"
  by (auto simp add: find_None_iff filter_empty_conv)

lemma get_or_create_found:
  assumes "find (\<lambda>z. is_instance z d \<and> filter_by kwargs (flush s) z) (rows (flush s)) = Some x"
  shows "get_or_create s d kwargs = (x, flush s)"
  using assms by (simp add: get_or_create_def query_first_def)

lemma get_or_create_created:
  assumes "fresh_refs s"
    and "find (\<lambda>z. is_instance z d \<and> filter_by kwargs (flush s) z) (rows (flush s)) = None"
  shows "get_or_create s d kwargs =
         (new_obj (flush s) d kwargs,
          (flush s)\<lparr>new := [new_obj (flush s) d kwargs], next_ref := next_ref s + 1\<rparr>)"
proof -
  have "get_or_create s d kwargs = get_or_create (flush s) d kwargs"
    by (simp only: get_or_create_flush)
  also have "\<dots> = (new_obj (flush s) d kwargs,
          (flush s)\<lparr>new := [new_obj (flush s) d kwargs], next_ref := next_ref (flush s) + 1\<rparr>)"
    using assms(2) by (simp add: get_or_create_clean fresh_refs_flush [OF assms(1)])
  finally show ?thesis by simp
qed


section \<open>Properties of get_or_create\<close>

lemma find_append_None:
  "find P xs = None \<Longrightarrow> find P (xs @ ys) = find P ys"
  by (induction xs) (auto split: if_splits)

lemma filter_by_pk_update [simp]:
  "filter_by kwargs s (x\<lparr>pk := p\<rparr>) = filter_by kwargs s x"
  by (simp add: filter_by_def cong: val.case_cong)

lemma is_instance_pk_update [simp]:
  "is_instance (x\<lparr>pk := p\<rparr>) d = is_instance x d"
  by (simp add: is_instance_def)

lemma filter_by_new_obj:
  assumes "distinct (map fst kwargs)" "\<forall>(k, v)\<in>set kwargs. plain v"
  shows "filter_by kwargs s' (new_obj s d kwargs)"
  using assms by (auto simp add: filter_by_plain new_obj_attrs_in)








lemma flush_empty_session: "flush empty_session = empty_session"
  by (simp add: flush_def empty_session_def)

lemma fresh_refs_empty_session: "fresh_refs empty_session"
  by (simp add: fresh_refs_def empty_session_def)





lemma find_SomeD: "find P xs = Some x \<Longrightarrow> x \<in> set xs \<and> P x"
  by (auto simp add: find_Some_iff)

lemma is_instance_proper: "d \<noteq> Listing \<Longrightarrow> is_instance x d = (dtype x = d)"
  by (simp add: is_instance_def)

lemma filter_by_name: "filter_by [(''name'', VStr n)] s x = (attrs x ''name'' = VStr n)"
  by (simp add: filter_by_def)

text \<open>
  Claim C10. \<open>add_ids_to_list\<close> needs a non-empty list of ids. With the empty list
  it raises \<open>IndexError\<close> at \<open>listing_ids[0]\<close>, after the List has been fetched or
  staged by \<open>get_or_create\<close>: the session it leaves holds a List of that name, newly
  staged when the store had none. \<open>remove_ids_from_list\<close> with the empty list raises
  nothing and leaves the session as a flush leaves it.
\<close>

theorem add_ids_to_list_empty_ids:
  assumes "fresh_refs s"
  shows "fst (add_ids_to_list s [] list_name) = Inl IndexError
       \<and> snd (add_ids_to_list s [] list_name) =
           snd (get_or_create s List [(''name'', VStr list_name)])
       \<and> (\<exists>l\<in>set (rows (snd (add_ids_to_list s [] list_name))
                      @ new (snd (add_ids_to_list s [] list_name))).
              dtype l = List \<and> attrs l ''name'' = VStr list_name)
       \<and> (visible s List [(''name'', VStr list_name)] = [] \<longrightarrow>
              new (snd (add_ids_to_list s [] list_name)) \<noteq> [])
       \<and> remove_ids_from_list s [] list_name = (Inr (), flush s)"
proof -
  let ?kw = "[(''name'', VStr list_name)]"
  have a: "add_ids_to_list s [] list_name = (Inl IndexError, snd (get_or_create s List ?kw))"
    by (simp add: add_ids_to_list_def split: prod.splits)
  have r: "remove_ids_from_list s [] list_name = (Inr (), flush s)"
    by (simp add: remove_ids_from_list_def query_first_def Let_def split: option.splits)
  have "(\<exists>l\<in>set (rows (snd (get_or_create s List ?kw)) @ new (snd (get_or_create s List ?kw))).
              dtype l = List \<and> attrs l ''name'' = VStr list_name)
       \<and> (visible s List ?kw = [] \<longrightarrow> new (snd (get_or_create s List ?kw)) \<noteq> [])"
  proof (cases "find (\<lambda>z. is_instance z List \<and> filter_by ?kw (flush s) z) (rows (flush s))")
    case None
    from get_or_create_created [OF assms None]
    have "new (snd (get_or_create s List ?kw)) = [new_obj (flush s) List ?kw]"
      by simp
    moreover have "attrs (new_obj (flush s) List ?kw) ''name'' = VStr list_name"
      by (simp add: new_obj_attrs_in)
    ultimately show ?thesis by simp
  next
    case (Some l)
    then have vis: "visible s List ?kw \<noteq> []"
      by (simp add: visible_def find_None_filter [symmetric])
    from find_SomeD [OF Some] have "l \<in> set (rows (flush s))" "dtype l = List"
      "attrs l ''name'' = VStr list_name"
      by (simp_all add: is_instance_proper filter_by_name)
    with get_or_create_found [OF Some] vis show ?thesis by auto
  qed
  with a r show ?thesis by simp
qed

text \<open>The theorem on an empty store, for the list name \<open>L\<close>.\<close>

theorem add_ids_to_list_empty_ids_witness:
  "fresh_refs empty_session
   \<and> fst (add_ids_to_list empty_session [] ''L'') = Inl IndexError
   \<and> visible empty_session List [(''name'', VStr ''L'')] = []
   \<and> new (snd (add_ids_to_list empty_session [] ''L'')) \<noteq> []
   \<and> remove_ids_from_list empty_session [] ''L'' = (Inr (), empty_session)"
proof -
  have v: "visible empty_session List [(''name'', VStr ''L'')] = []"
    by (simp add: visible_def flush_empty_session) (simp add: empty_session_def)
  note t = add_ids_to_list_empty_ids [OF fresh_refs_empty_session, of "''L''"]
  from t have e: "fst (add_ids_to_list empty_session [] ''L'') = Inl IndexError"
    by blast
  from t v have n: "new (snd (add_ids_to_list empty_session [] ''L'')) \<noteq> []"
    by blast
  from t have "remove_ids_from_list empty_session [] ''L'' = (Inr (), flush empty_session)"
    by blast
  then have r: "remove_ids_from_list empty_session [] ''L'' = (Inr (), empty_session)"
    by (simp only: flush_empty_session)
  from fresh_refs_empty_session e v n r show ?thesis by blast
qed

section \<open>Properties of link_products_ids\<close>

lemma find_map: "find P (map f xs) = map_option f (find (\<lambda>x. P (f x)) xs)"
  by (induction xs) auto

lemma get_or_create_visible:
  assumes fresh: "fresh_refs s"
    and keys: "distinct (map fst kwargs)"
    and cols: "\<forall>(k, v)\<in>set kwargs. plain v"
    and first: "get_or_create s d kwargs = (x, s1)"
  shows "\<exists>z. find (\<lambda>z. is_instance z d \<and> filter_by kwargs t z) (rows (flush s1)) = Some z
             \<and> oref z = oref x \<and> attrs z = attrs x"
proof (cases "find (\<lambda>z. is_instance z d \<and> filter_by kwargs (flush s) z) (rows (flush s))")
  case (Some x0)
  from get_or_create_found [OF Some] first have 1: "x = x0" "s1 = flush s"
    by simp_all
  from Some have "find (\<lambda>z. is_instance z d \<and> filter_by kwargs t z) (rows (flush s)) = Some x0"
    using filter_by_plain_session [OF cols, of t _ "flush s"] by simp
  with 1 show ?thesis by simp
next
  case None
  let ?fs = "flush s"
  let ?nx = "new_obj ?fs d kwargs"
  let ?x' = "?nx\<lparr>pk := Some (next_id ?fs)\<rparr>"
  from get_or_create_created [OF fresh None] first
  have 1: "x = ?nx" "s1 = ?fs\<lparr>new := [?nx], next_ref := next_ref s + 1\<rparr>"
    by simp_all
  have "plain (attrs ?x' k)" for k
    using new_obj_plain [OF keys cols] by simp
  then have sync: "sync_fk (rows ?fs) ?x' = ?x'"
    by (rule sync_fk_plain)
  have fl: "flush s1 = s1\<lparr>rows := rows ?fs @ [?x'], new := [], next_id := next_id ?fs + 1\<rparr>"
    using flush_one_new [of s1 ?nx] sync by (simp add: 1)
  have rows1: "rows (flush s1) = rows ?fs @ [?x']" by (simp add: fl)
  have px': "is_instance ?x' d \<and> filter_by kwargs t ?x'"
    using filter_by_new_obj [OF keys cols] by simp
  have nofs: "find (\<lambda>z. is_instance z d \<and> filter_by kwargs t z) (rows ?fs) = None"
    using None filter_by_plain_session [OF cols, of t _ ?fs] by simp
  have "find (\<lambda>z. is_instance z d \<and> filter_by kwargs t z) (rows (flush s1)) = Some ?x'"
    unfolding rows1 using nofs px' by (simp add: find_append_None)
  with 1 show ?thesis by simp
qed

lemma get_or_create_fresh:
  assumes "fresh_refs s" "get_or_create s d kwargs = (x, s1)"
  shows "fresh_refs s1"
proof (cases "find (\<lambda>z. is_instance z d \<and> filter_by kwargs (flush s) z) (rows (flush s))")
  case (Some x0)
  from get_or_create_found [OF Some] assms(2) have "s1 = flush s" by simp
  with fresh_refs_flush [OF assms(1)] show ?thesis by simp
next
  case None
  from get_or_create_created [OF assms(1) None] assms(2)
  have "s1 = (flush s)\<lparr>new := [new_obj (flush s) d kwargs], next_ref := next_ref s + 1\<rparr>"
    by simp
  with fresh_refs_flush [OF assms(1)] show ?thesis
    by (auto simp add: fresh_refs_def list_all_iff)
qed

lemma refresh_oref [simp]: "oref (refresh s x) = oref x"
  by (auto simp add: refresh_def split: option.splits dest: find_SomeD)

lemma setattr_fields [simp]:
  "new (snd (setattr x k v s)) = map (\<lambda>y. if oref y = oref x then y\<lparr>attrs := (attrs y)(k := v)\<rparr> else y) (new s)"
  "rows (snd (setattr x k v s)) = map (\<lambda>y. if oref y = oref x then y\<lparr>attrs := (attrs y)(k := v)\<rparr> else y) (rows s)"
  "deleted (snd (setattr x k v s)) = deleted s"
  "next_ref (snd (setattr x k v s)) = next_ref s"
  "next_id (snd (setattr x k v s)) = next_id s"
  "scorer_calls (snd (setattr x k v s)) = scorer_calls s"
  "fst (setattr x k v s) = x\<lparr>attrs := (attrs x)(k := v)\<rparr>"
  by (simp_all add: setattr_def Let_def)

lemma filter_by_attr_update:
  assumes "\<forall>(k, v)\<in>set kwargs. plain v" "k0 \<notin> fst ` set kwargs"
  shows "filter_by kwargs t (y\<lparr>attrs := (attrs y)(k0 := v0)\<rparr>) = filter_by kwargs t y"
proof -
  have "k \<noteq> k0" if "(k, v) \<in> set kwargs" for k v
    using assms(2) that by (auto simp add: image_iff)
  then show ?thesis
    by (auto simp add: filter_by_plain [OF assms(1)])
qed

lemma is_instance_attrs_update [simp]:
  "is_instance (y\<lparr>attrs := f\<rparr>) d = is_instance y d"
  by (simp add: is_instance_def)

lemma link_kwargs_plain:
  "distinct (map fst [(''amz_listing_id'', VInt a), (''vnd_listing_id'', VInt v)])"
  "\<forall>(k, w)\<in>set [(''amz_listing_id'', VInt a), (''vnd_listing_id'', VInt v)]. plain w"
  "''confidence'' \<notin> fst ` set [(''amz_listing_id'', VInt a), (''vnd_listing_id'', VInt v)]"
  by (simp_all add: plain_def)

text \<open>
  Claim C4. Once a call \<open>link_products_ids\<close> for the pair of listing ids has
  returned the link with a confidence \<open>V\<close> that is set (not \<open>None\<close>), every
  later call for the same pair returns the same link with confidence \<open>V\<close>, whatever
  the scorer would compute now: the scorer is not called (the count of its calls stays),
  and the call changes the session no more than the flush of its query does.
\<close>

theorem link_products_ids_confidence_once:
  assumes fresh: "fresh_refs s"
    and first: "link_products_ids scorer1 s a v = (link, s1)"
    and conf: "attrs link ''confidence'' = V"
    and set: "V \<noteq> VNone"
    and second: "link_products_ids scorer2 s1 a v = (link', s2)"
  shows "oref link' = oref link
       \<and> attrs link' ''confidence'' = V
       \<and> scorer_calls s2 = scorer_calls s1
       \<and> s2 = flush s1"
proof -
  let ?kw = "[(''amz_listing_id'', VInt a), (''vnd_listing_id'', VInt v)]"
  let ?P = "\<lambda>t z. is_instance z LinkedProducts \<and> filter_by ?kw t z"
  obtain l0 t1 where g: "get_or_create s LinkedProducts ?kw = (l0, t1)"
    by (cases "get_or_create s LinkedProducts ?kw") auto
  have vis: "\<exists>z. find (?P t) (rows (flush t1)) = Some z \<and> oref z = oref l0 \<and> attrs z = attrs l0"
    for t
    by (rule get_or_create_visible [OF fresh link_kwargs_plain(1,2) g])
  show ?thesis
  proof (cases "attrs l0 ''confidence'' = VNone")
    case False
    with first g have 1: "link = l0" "s1 = t1"
      by (simp_all add: link_products_ids_def)
    from vis [of "flush t1"] obtain z where
      z: "find (?P (flush t1)) (rows (flush t1)) = Some z" "oref z = oref l0" "attrs z = attrs l0"
      by blast
    from get_or_create_found [OF z(1)]
    have "get_or_create t1 LinkedProducts ?kw = (z, flush t1)" .
    with second False z(3) have "link' = z" "s2 = flush t1"
      by (simp_all add: link_products_ids_def 1)
    with z conf 1 show ?thesis by simp
  next
    case True
    let ?t2 = "flush t1"
    let ?l1 = "refresh ?t2 l0"
    let ?c = "scorer1 ?t2 ?l1"
    let ?upd = "\<lambda>y. if oref y = oref l0 then y\<lparr>attrs := (attrs y)(''confidence'' := ?c)\<rparr> else y"
    from first g True have b: "(link, s1) = build_confidence scorer1 ?l1 ?t2"
      by (simp add: link_products_ids_def Let_def)
    then have link: "link = ?l1\<lparr>attrs := (attrs ?l1)(''confidence'' := ?c)\<rparr>"
      and s1: "s1 = snd (build_confidence scorer1 ?l1 ?t2)"
      by (simp_all add: build_confidence_def setattr_def Let_def)
    from link conf have c: "?c = V" by simp
    have rows1: "rows s1 = map ?upd (rows ?t2)"
      and clean1: "new s1 = []" "deleted s1 = []"
      by (simp_all add: s1 build_confidence_def)
    then have fl1: "flush s1 = s1"
      by (simp add: flush_clean clean_def)
    from vis [of s1] obtain z where
      z: "find (?P s1) (rows ?t2) = Some z" "oref z = oref l0"
      by blast
    have same: "?P s1 (?upd y) = ?P s1 y" for y
      using filter_by_attr_update [OF link_kwargs_plain(2,3), of a v s1 y ?c] by simp
    have "find (?P s1) (rows s1) = map_option ?upd (find (\<lambda>y. ?P s1 (?upd y)) (rows ?t2))"
      unfolding rows1 by (rule find_map)
    also have "\<dots> = Some (?upd z)"
      using z(1) by (simp only: same option.map)
    finally have "find (?P (flush s1)) (rows (flush s1)) = Some (?upd z)"
      by (simp only: fl1)
    from get_or_create_found [OF this]
    have g2: "get_or_create s1 LinkedProducts ?kw = (?upd z, s1)"
      by (simp only: fl1)
    have cz: "attrs (?upd z) ''confidence'' = V" and oz: "oref (?upd z) = oref l0"
      using z(2) c by simp_all
    from second g2 cz set have "link' = ?upd z" "s2 = s1"
      by (simp_all add: link_products_ids_def)
    with cz oz link fl1 show ?thesis by simp
  qed
qed

lemma get_or_create_empty_session:
  "get_or_create empty_session d kwargs =
     (new_obj empty_session d kwargs,
      empty_session\<lparr>new := [new_obj empty_session d kwargs], next_ref := 1\<rparr>)"
  using get_or_create_created [OF fresh_refs_empty_session, of d kwargs]
  by (simp add: flush_empty_session) (simp add: empty_session_def)

lemma link_first_confidence:
  "attrs (fst (link_products_ids scorer_3 empty_session 1 2)) ''confidence'' = VInt 3"
  by (simp add: link_products_ids_def get_or_create_empty_session new_obj_attrs_notin
        build_confidence_def scorer_3_def Let_def)

lemma link_first_calls:
  "scorer_calls (snd (link_products_ids scorer_3 empty_session 1 2)) = 1"
  by (simp add: link_products_ids_def get_or_create_empty_session new_obj_attrs_notin
        build_confidence_def Let_def)
    (simp add: empty_session_def)

text \<open>
  The theorem on an empty store: the first call scores the link 3; the second call, with
  a scorer that would give 9, returns the same link with confidence 3 after one scorer
  call in all.
\<close>

theorem link_products_ids_confidence_once_witness:
  "fresh_refs empty_session
   \<and> attrs (fst (link_products_ids scorer_3 empty_session 1 2)) ''confidence'' = VInt 3
   \<and> VInt 3 \<noteq> VNone
   \<and> attrs (fst (link_products_ids scorer_9
                   (snd (link_products_ids scorer_3 empty_session 1 2)) 1 2)) ''confidence''
       = VInt 3
   \<and> oref (fst (link_products_ids scorer_9
                   (snd (link_products_ids scorer_3 empty_session 1 2)) 1 2))
       = oref (fst (link_products_ids scorer_3 empty_session 1 2))
   \<and> scorer_calls (snd (link_products_ids scorer_9
                   (snd (link_products_ids scorer_3 empty_session 1 2)) 1 2)) = 1"
proof -
  let ?p1 = "link_products_ids scorer_3 empty_session 1 2"
  let ?p2 = "link_products_ids scorer_9 (snd ?p1) 1 2"
  have ne: "VInt 3 \<noteq> VNone" by simp
  note t = link_products_ids_confidence_once [OF fresh_refs_empty_session
      prod.collapse [symmetric, of ?p1] link_first_confidence ne
      prod.collapse [symmetric, of ?p2]]
  from t have "attrs (fst ?p2) ''confidence'' = VInt 3" by blast
  moreover from t have "oref (fst ?p2) = oref (fst ?p1)" by blast
  moreover from t have "scorer_calls (snd ?p2) = scorer_calls (snd ?p1)" by blast
  then have "scorer_calls (snd ?p2) = 1" by (simp only: link_first_calls)
  ultimately show ?thesis
    using fresh_refs_empty_session link_first_confidence ne by blast
qed

section \<open>Properties of get_or_create_category\<close>

lemma get_or_create_held:
  assumes "fresh_refs s" "d \<noteq> Listing" "get_or_create s d kwargs = (x, s1)"
  shows "dtype x = d \<and> x \<in> set (rows s1 @ new s1)"
proof (cases "find (\<lambda>z. is_instance z d \<and> filter_by kwargs (flush s) z) (rows (flush s))")
  case (Some x0)
  from get_or_create_found [OF Some] assms(3) have 1: "x = x0" "s1 = flush s"
    by simp_all
  from find_SomeD [OF Some] assms(2) have "x0 \<in> set (rows (flush s))" "dtype x0 = d"
    by (simp_all add: is_instance_proper)
  with 1 show ?thesis by simp
next
  case None
  from get_or_create_created [OF assms(1) None] assms(3)
  have "x = new_obj (flush s) d kwargs" "new s1 = [new_obj (flush s) d kwargs]"
    by auto
  then show ?thesis by simp
qed

lemma get_or_create_attrs:
  assumes "fresh_refs s" "distinct (map fst kwargs)" "\<forall>(k, v)\<in>set kwargs. plain v"
    and "get_or_create s d kwargs = (x, s1)" and "(k, v) \<in> set kwargs"
  shows "attrs x k = v"
proof -
  from get_or_create_visible [OF assms(1-4), of s1] obtain z where
    z: "find (\<lambda>z. is_instance z d \<and> filter_by kwargs s1 z) (rows (flush s1)) = Some z"
       "attrs z = attrs x"
    by blast
  from find_SomeD [OF z(1)] have "filter_by kwargs s1 z" by simp
  with assms(5) have "attrs z k = v"
    by (auto simp add: filter_by_plain [OF assms(3)])
  with z(2) show ?thesis by simp
qed

lemma setattr_held:
  assumes "x \<in> set (rows s @ new s)" "setattr x k v s = (x', s')"
  shows "x' \<in> set (rows s' @ new s')"
proof -
  let ?upd = "\<lambda>y. if oref y = oref x then y\<lparr>attrs := (attrs y)(k := v)\<rparr> else y"
  from assms(2) have 1: "x' = ?upd x" "rows s' = map ?upd (rows s)" "new s' = map ?upd (new s)"
    by (auto simp add: setattr_def Let_def)
  from assms(1) have "?upd x \<in> ?upd ` set (rows s @ new s)"
    by (rule imageI)
  then show ?thesis
    by (simp only: 1 set_append set_map image_Un)
qed

lemma unknown_kwargs:
  "distinct (map fst [(''name'', VStr ''Unknown'')])"
  "\<forall>(k, v)\<in>set [(''name'', VStr ''Unknown'')]. plain v"
  "(''name'', VStr ''Unknown'') \<in> set [(''name'', VStr ''Unknown'')]"
  by (simp_all add: plain_def)

lemma category_none_none:
  assumes "\<not> truthy productcategory_id" "\<not> truthy product_group"
  shows "get_or_create_category s productcategory_id product_group =
         get_or_create s AmazonCategory [(''name'', VStr ''Unknown'')]"
  using assms by (simp add: get_or_create_category_def)

lemma category_group_unmatched:
  assumes "\<not> truthy productcategory_id" "truthy product_group"
    and "find (\<lambda>z. is_instance z AmazonCategory \<and> contains ''product_groups'' product_group (flush s) z)
           (rows (flush s)) = None"
  shows "get_or_create_category s productcategory_id product_group =
         get_or_create s AmazonCategory [(''name'', VStr ''Unknown'')]"
  using assms
  by (simp add: get_or_create_category_def query_first_def Let_def get_or_create_flush)

lemma category_group_matched:
  assumes "\<not> truthy productcategory_id" "truthy product_group"
    and "find (\<lambda>z. is_instance z AmazonCategory \<and> contains ''product_groups'' product_group (flush s) z)
           (rows (flush s)) = Some c"
  shows "get_or_create_category s productcategory_id product_group = (c, flush s)"
  using assms
  by (simp add: get_or_create_category_def query_first_def Let_def)

lemma category_by_id:
  assumes "truthy productcategory_id"
    and "get_or_create s AmazonCategory [(''product_category_id'', productcategory_id)] = (c0, s1)"
  shows "get_or_create_category s productcategory_id product_group =
         setattr c0 ''name''
           (if truthy (attrs c0 ''name'') then attrs c0 ''name'' else productcategory_id) s1"
  using assms
  by (simp add: get_or_create_category_def split: prod.splits)

lemma unknown_is_category:
  assumes "fresh_refs s" "get_or_create s AmazonCategory [(''name'', VStr ''Unknown'')] = (c, s')"
  shows "dtype c = AmazonCategory \<and> c \<in> set (rows s' @ new s') \<and> attrs c ''name'' = VStr ''Unknown''"
  using get_or_create_held [OF assms(1) _ assms(2)]
    get_or_create_attrs [OF assms(1) unknown_kwargs(1,2) assms(2) unknown_kwargs(3)]
  by simp

lemma category_held:
  assumes fresh: "fresh_refs s"
    and res: "get_or_create_category s productcategory_id product_group = (c, s')"
  shows "dtype c = AmazonCategory \<and> c \<in> set (rows s' @ new s')"
proof (cases "truthy productcategory_id")
  case True
  obtain c0 s1 where g: "get_or_create s AmazonCategory [(''product_category_id'', productcategory_id)] = (c0, s1)"
    by (cases "get_or_create s AmazonCategory [(''product_category_id'', productcategory_id)]") auto
  from get_or_create_held [OF fresh _ g] have h: "dtype c0 = AmazonCategory" "c0 \<in> set (rows s1 @ new s1)"
    by simp_all
  from category_by_id [OF True g] res
  have sa: "setattr c0 ''name''
           (if truthy (attrs c0 ''name'') then attrs c0 ''name'' else productcategory_id) s1 = (c, s')"
    by simp
  from setattr_held [OF h(2) sa] have "c \<in> set (rows s' @ new s')" .
  moreover from sa h(1) have "dtype c = AmazonCategory"
    by (auto simp add: setattr_def Let_def)
  ultimately show ?thesis by simp
next
  case False
  show ?thesis
  proof (cases "truthy product_group")
    case ng: False
    from category_none_none [OF False ng] res
    have "get_or_create s AmazonCategory [(''name'', VStr ''Unknown'')] = (c, s')"
      by simp
    from unknown_is_category [OF fresh this] show ?thesis by simp
  next
    case g: True
    show ?thesis
    proof (cases "find (\<lambda>z. is_instance z AmazonCategory
              \<and> contains ''product_groups'' product_group (flush s) z) (rows (flush s))")
      case None
      from category_group_unmatched [OF False g None] res
      have "get_or_create s AmazonCategory [(''name'', VStr ''Unknown'')] = (c, s')"
        by simp
      from unknown_is_category [OF fresh this] show ?thesis by simp
    next
      case (Some z)
      from category_group_matched [OF False g Some] res have "c = z" "s' = flush s"
        by simp_all
      with find_SomeD [OF Some] show ?thesis
        by (simp add: is_instance_proper)
    qed
  qed
qed

text \<open>
  Claim C6. \<open>get_or_create_category\<close> never returns \<open>None\<close>: for every input it
  returns an \<open>AmazonCategory\<close> object that the session holds. With neither a category
  id nor a product group it returns the category named Unknown. With no category id and a
  product group that no category of the store contains, it does exactly what
  \<open>get_or_create\<close> does for the name Unknown, so that no category is created for the
  group. With a category id it returns a category with that \<open>product_category_id\<close>,
  whose name is the raw id when the name was unset before and the previous name otherwise.
\<close>

theorem get_or_create_category_fallback:
  assumes fresh: "fresh_refs s"
    and res: "get_or_create_category s productcategory_id product_group = (c, s')"
  shows "dtype c = AmazonCategory \<and> c \<in> set (rows s' @ new s')
       \<and> (\<not> truthy productcategory_id \<and> \<not> truthy product_group \<longrightarrow>
             attrs c ''name'' = VStr ''Unknown'')
       \<and> (\<not> truthy productcategory_id \<and> group_matches s product_group = [] \<longrightarrow>
             attrs c ''name'' = VStr ''Unknown''
             \<and> (c, s') = get_or_create s AmazonCategory [(''name'', VStr ''Unknown'')])
       \<and> (truthy productcategory_id \<and> plain productcategory_id \<longrightarrow>
             attrs c ''product_category_id'' = productcategory_id
             \<and> attrs c ''name'' =
                 (let c0 = fst (get_or_create s AmazonCategory
                                  [(''product_category_id'', productcategory_id)])
                  in if truthy (attrs c0 ''name'') then attrs c0 ''name'' else productcategory_id))"
proof -
  note held = category_held [OF fresh res]
  have unk: "attrs c ''name'' = VStr ''Unknown''
             \<and> (c, s') = get_or_create s AmazonCategory [(''name'', VStr ''Unknown'')]"
    if np: "\<not> truthy productcategory_id" and nm: "group_matches s product_group = []"
  proof -
    have "get_or_create_category s productcategory_id product_group =
         get_or_create s AmazonCategory [(''name'', VStr ''Unknown'')]"
    proof (cases "truthy product_group")
      case False
      from category_none_none [OF np False] show ?thesis .
    next
      case True
      from nm have "find (\<lambda>z. is_instance z AmazonCategory
              \<and> contains ''product_groups'' product_group (flush s) z) (rows (flush s)) = None"
        by (simp only: group_matches_def find_None_filter)
      from category_group_unmatched [OF np True this] show ?thesis .
    qed
    with res have e: "get_or_create s AmazonCategory [(''name'', VStr ''Unknown'')] = (c, s')"
      by simp
    with unknown_is_category [OF fresh e] show ?thesis by simp
  qed
  have none: "attrs c ''name'' = VStr ''Unknown''"
    if np: "\<not> truthy productcategory_id" and ng: "\<not> truthy product_group"
  proof -
    from category_none_none [OF np ng] res
    have "get_or_create s AmazonCategory [(''name'', VStr ''Unknown'')] = (c, s')"
      by simp
    from unknown_is_category [OF fresh this] show ?thesis by simp
  qed
  have byid: "attrs c ''product_category_id'' = productcategory_id
             \<and> attrs c ''name'' =
                 (let c0 = fst (get_or_create s AmazonCategory
                                  [(''product_category_id'', productcategory_id)])
                  in if truthy (attrs c0 ''name'') then attrs c0 ''name'' else productcategory_id)"
    if tp: "truthy productcategory_id" and pl: "plain productcategory_id"
  proof -
    let ?kw = "[(''product_category_id'', productcategory_id)]"
    obtain c0 s1 where g: "get_or_create s AmazonCategory ?kw = (c0, s1)"
      by (cases "get_or_create s AmazonCategory ?kw") auto
    have "attrs c0 ''product_category_id'' = productcategory_id"
      using pl by (intro get_or_create_attrs [OF fresh _ _ g]) simp_all
    moreover from category_by_id [OF tp g] res
    have "c = c0\<lparr>attrs := (attrs c0)(''name'' :=
             (if truthy (attrs c0 ''name'') then attrs c0 ''name'' else productcategory_id))\<rparr>"
      by (simp add: setattr_def Let_def)
    ultimately show ?thesis by (simp add: g)
  qed
  from held unk none byid show ?thesis by blast
qed

lemma group_matches_empty_session: "group_matches empty_session g = []"
  by (simp add: group_matches_def flush_empty_session) (simp add: empty_session_def)

text \<open>
  The theorem on an empty store, for the inputs \<open>(None, 'Electronics')\<close>,
  \<open>(None, None)\<close> and \<open>('123', None)\<close>.
\<close>

theorem get_or_create_category_fallback_witness:
  "fresh_refs empty_session
   \<and> group_matches empty_session (VStr ''Electronics'') = []
   \<and> attrs (fst (get_or_create_category empty_session VNone (VStr ''Electronics''))) ''name''
       = VStr ''Unknown''
   \<and> attrs (fst (get_or_create_category empty_session VNone VNone)) ''name'' = VStr ''Unknown''
   \<and> truthy (VStr ''123'') \<and> plain (VStr ''123'')
   \<and> attrs (fst (get_or_create_category empty_session (VStr ''123'') VNone))
         ''product_category_id'' = VStr ''123''
   \<and> attrs (fst (get_or_create_category empty_session (VStr ''123'') VNone)) ''name''
       = VStr ''123''"
proof -
  let ?e = "get_or_create_category empty_session VNone (VStr ''Electronics'')"
  let ?n = "get_or_create_category empty_session VNone VNone"
  let ?c = "get_or_create_category empty_session (VStr ''123'') VNone"
  note te = get_or_create_category_fallback [OF fresh_refs_empty_session
      prod.collapse [symmetric, of ?e]]
  note tn = get_or_create_category_fallback [OF fresh_refs_empty_session
      prod.collapse [symmetric, of ?n]]
  note tc = get_or_create_category_fallback [OF fresh_refs_empty_session
      prod.collapse [symmetric, of ?c]]
  have f: "\<not> truthy VNone" by simp
  have t: "truthy (VStr ''123'')" "plain (VStr ''123'')" by (simp_all add: plain_def)
  from te f group_matches_empty_session [of "VStr ''Electronics''"]
  have 1: "attrs (fst ?e) ''name'' = VStr ''Unknown''" by blast
  from tn f have 2: "attrs (fst ?n) ''name'' = VStr ''Unknown''" by blast
  from tc t have 3: "attrs (fst ?c) ''product_category_id'' = VStr ''123''"
    and "attrs (fst ?c) ''name'' =
                 (let c0 = fst (get_or_create empty_session AmazonCategory
                                  [(''product_category_id'', VStr ''123'')])
                  in if truthy (attrs c0 ''name'') then attrs c0 ''name'' else VStr ''123'')"
    by blast+
  then have 4: "attrs (fst ?c) ''name'' = VStr ''123''"
    by (simp add: get_or_create_empty_session new_obj_attrs_notin)
  from fresh_refs_empty_session group_matches_empty_session [of "VStr ''Electronics''"] 1 2 t 3 4
  show ?thesis by blast
qed

section \<open>Properties of get_watch and set_watch\<close>

lemma is_watch_iff:
  "(is_instance z Operation \<and> get_watch_filter lid t z) = is_watch lid z"
  by (auto simp add: is_watch_def get_watch_filter_def filter_by_def is_instance_def)

lemma watches_is_watch: "watches s lid = filter (is_watch lid) (rows (flush s))"
  by (simp add: watches_def)

lemma watches_get_watch:
  "watches s lid =
   filter (\<lambda>z. is_instance z Operation \<and> get_watch_filter lid (flush s) z) (rows (flush s))"
  by (simp add: watches_def is_watch_iff)

lemma get_watch_find: "get_watch s lid = (find (is_watch lid) (rows (flush s)), flush s)"
  by (simp add: get_watch_def query_first_def Let_def is_watch_iff)

lemma flush_orefs:
  "map oref (rows (flush s)) =
   filter (\<lambda>r. r \<notin> set (deleted s)) (map oref (rows s) @ map oref (new s))"
proof -
  have "map oref (rows (flush s)) =
        filter (\<lambda>r. r \<notin> set (deleted s)) (map oref (rows (fold insert_row (new s) (s\<lparr>new := []\<rparr>))))"
    by (simp add: flush_def Let_def filter_map comp_def)
  then show ?thesis
    by (simp only: fold_insert_row_orefs) simp
qed

lemma distinct_refs_flush: "distinct_refs s \<Longrightarrow> distinct_refs (flush s)"
  by (simp add: distinct_refs_def flush_orefs del: filter_append)

lemma distinct_refs_rows: "distinct_refs s \<Longrightarrow> distinct (map oref (rows (flush s)))"
  using distinct_refs_flush [of s] by (simp add: distinct_refs_def)

lemma distinct_oref_eq:
  assumes "distinct (map oref xs)" "x \<in> set xs" "y \<in> set xs" "oref x = oref y"
  shows "x = y"
  using assms by (meson distinct_map inj_on_def)

lemma rearm_fields [simp]:
  "oref (rearm time z) = oref z"
  "dtype (rearm time z) = dtype z"
  "pk (rearm time z) = pk z"
  "attrs (rearm time z) ''params'' = VDict [(''log'', VBool True), (''repeat'', time)]"
  "attrs (rearm time z) ''scheduled'' = VNow"
  "attrs (rearm time z) ''priority'' = attrs z ''priority''"
  "attrs (rearm time z) ''listing_id'' = attrs z ''listing_id''"
  "attrs (rearm time z) ''operation'' = attrs z ''operation''"
  "attrs (rearm time z) ''list'' = attrs z ''list''"
  by (simp_all add: rearm_def)

lemma is_watch_rearm:
  "is_watch lid (rearm time z) \<longleftrightarrow>
     dtype z = Operation \<and> attrs z ''listing_id'' = VInt lid
     \<and> attrs z ''operation'' = VStr ''UpdateAmazonListing''"
  by (simp add: is_watch_def has_key_def)

lemma is_watch_rearm_other:
  "lid' \<noteq> lid \<Longrightarrow> is_watch lid z \<Longrightarrow> \<not> is_watch lid' (rearm time z)"
  by (simp add: is_watch_rearm is_watch_def)

lemma setattr_orefs [simp]:
  "map oref (rows (snd (setattr x k v s))) = map oref (rows s)"
  "map oref (new (snd (setattr x k v s))) = map oref (new s)"
  by (simp_all add: comp_def if_distrib [of oref] cong: if_cong)

lemma add_held: "oref x \<in> set (map oref (rows s)) \<Longrightarrow> add x s = s"
  by (simp add: add_def image_Un)

lemma add_fresh:
  "oref x \<notin> set (map oref (rows s)) \<Longrightarrow> oref x \<notin> set (map oref (new s)) \<Longrightarrow>
   add x s = s\<lparr>new := new s @ [x]\<rparr>"
  by (simp add: add_def image_Un)

lemma setattr_twice:
  "snd (setattr (fst (setattr x k1 v1 s)) k2 v2 (snd (setattr x k1 v1 s))) =
   s\<lparr>rows := map (\<lambda>y. if oref y = oref x then y\<lparr>attrs := (attrs y)(k1 := v1, k2 := v2)\<rparr> else y) (rows s),
     new := map (\<lambda>y. if oref y = oref x then y\<lparr>attrs := (attrs y)(k1 := v1, k2 := v2)\<rparr> else y) (new s)\<rparr>"
  by (simp add: setattr_def Let_def comp_def if_distrib cong: if_cong)

lemma set_watch_some:
  assumes "find (is_watch lid) (rows (flush s)) = Some w0" "time \<noteq> VNone"
  shows "set_watch s lid time =
         add (rearm time w0)
           ((flush s)\<lparr>rows := map (\<lambda>y. if oref y = oref w0 then rearm time y else y) (rows (flush s))\<rparr>)"
proof -
  let ?p = "VDict [(''log'', VBool True), (''repeat'', time)]"
  let ?a1 = "setattr w0 ''params'' ?p (flush s)"
  let ?a2 = "setattr (fst ?a1) ''scheduled'' VNow (snd ?a1)"
  have "set_watch s lid time = add (fst ?a2) (snd ?a2)"
    using assms by (simp add: set_watch_def get_watch_find case_prod_beta Let_def)
  moreover have "fst ?a2 = rearm time w0"
    by (simp add: rearm_def)
  moreover have "snd ?a2 =
      (flush s)\<lparr>rows := map (\<lambda>y. if oref y = oref w0 then rearm time y else y) (rows (flush s))\<rparr>"
    by (simp only: setattr_twice) (simp add: rearm_def)
  ultimately show ?thesis by simp
qed

lemma set_watch_existing:
  assumes "find (is_watch lid) (rows (flush s)) = Some w0" "time \<noteq> VNone"
  shows "set_watch s lid time =
         (flush s)\<lparr>rows := map (\<lambda>y. if oref y = oref w0 then rearm time y else y) (rows (flush s))\<rparr>"
proof -
  from find_SomeD [OF assms(1)] have "w0 \<in> set (rows (flush s))" by simp
  then have "oref w0 \<in> oref ` set (rows (flush s))" by (rule imageI)
  then have "oref (rearm time w0) \<in> set (map oref (rows
      ((flush s)\<lparr>rows := map (\<lambda>y. if oref y = oref w0 then rearm time y else y) (rows (flush s))\<rparr>)))"
    by (simp add: comp_def if_distrib [of oref] cong: if_cong)
  from add_held [OF this] set_watch_some [OF assms] show ?thesis by simp
qed

lemma map_upd_fresh:
  "\<forall>y\<in>set xs. oref y \<noteq> r \<Longrightarrow> map (\<lambda>y. if oref y = r then f y else y) xs = xs"
  by (induction xs) auto

lemma fresh_refs_rows: "fresh_refs s \<Longrightarrow> \<forall>y\<in>set (rows (flush s)). oref y \<noteq> next_ref s"
  using fresh_refs_flush [of s] by (auto simp add: fresh_refs_def list_all_iff)

lemma set_watch_created:
  assumes fresh: "fresh_refs s"
    and none: "find (is_watch lid) (rows (flush s)) = None"
    and time: "time \<noteq> VNone"
  shows "set_watch s lid time =
         (flush s)\<lparr>new := [rearm time (new_obj (flush s) Operation (watch_kwargs lid))],
                    next_ref := next_ref s + 1\<rparr>"
proof -
  let ?fs = "flush s"
  let ?nx = "new_obj ?fs Operation (watch_kwargs lid)"
  let ?s2 = "?fs\<lparr>next_ref := next_ref s + 1\<rparr>"
  let ?p = "VDict [(''log'', VBool True), (''repeat'', time)]"
  let ?a1 = "setattr ?nx ''params'' ?p ?s2"
  let ?a2 = "setattr (fst ?a1) ''scheduled'' VNow (snd ?a1)"
  have c: "UpdateAmazonListing [(''listing_id'', VInt lid), (''priority'', VInt 5)] ?fs = (?nx, ?s2)"
    by (simp add: UpdateAmazonListing_def new_obj_def construct_def watch_kwargs_def)
  have "set_watch s lid time = add (fst ?a2) (snd ?a2)"
    using none time by (simp add: set_watch_def get_watch_find c case_prod_beta Let_def)
  moreover have f: "fst ?a2 = rearm time ?nx"
    by (simp add: rearm_def)
  moreover have "snd ?a2 = ?s2"
  proof -
    have "map (\<lambda>y. if oref y = oref ?nx then y\<lparr>attrs := (attrs y)(''params'' := ?p, ''scheduled'' := VNow)\<rparr> else y)
            (rows ?fs) = rows ?fs"
      using fresh_refs_rows [OF fresh] by (intro map_upd_fresh) simp
    then show ?thesis
      by (simp only: setattr_twice) simp
  qed
  moreover have "add (rearm time ?nx) ?s2 = ?s2\<lparr>new := new ?s2 @ [rearm time ?nx]\<rparr>"
    using fresh_refs_rows [OF fresh] by (intro add_fresh) (auto simp add: image_iff)
  ultimately show ?thesis by simp
qed

lemma watch_kwargs_attrs:
  "attrs (new_obj s Operation (watch_kwargs lid)) ''listing_id'' = VInt lid"
  "attrs (new_obj s Operation (watch_kwargs lid)) ''operation'' = VStr ''UpdateAmazonListing''"
  "attrs (new_obj s Operation (watch_kwargs lid)) ''priority'' = VInt 5"
  "attrs (new_obj s Operation (watch_kwargs lid)) ''list'' = VNone"
  by (simp_all add: new_obj_attrs_in new_obj_attrs_notin watch_kwargs_def)

lemma flush_set_watch_created:
  assumes fresh: "fresh_refs s"
    and none: "find (is_watch lid) (rows (flush s)) = None"
    and time: "time \<noteq> VNone"
  shows "rows (flush (set_watch s lid time)) =
         rows (flush s) @ [rearm time (new_obj (flush s) Operation (watch_kwargs lid))
                             \<lparr>pk := Some (next_id (flush s))\<rparr>]"
proof -
  let ?x = "rearm time (new_obj (flush s) Operation (watch_kwargs lid))"
  let ?s1 = "set_watch s lid time"
  have s1: "?s1 = (flush s)\<lparr>new := [?x], next_ref := next_ref s + 1\<rparr>"
    by (rule set_watch_created [OF assms])
  have wk: "distinct (map fst (watch_kwargs lid))" "\<forall>(k, v)\<in>set (watch_kwargs lid). plain v"
    by (simp_all add: watch_kwargs_def plain_def)
  have "plain (attrs (?x\<lparr>pk := Some (next_id (flush s))\<rparr>) k)" for k
    using new_obj_plain [OF wk, of "flush s" Operation k] by (simp add: rearm_def plain_def)
  then have sync: "sync_fk (rows (flush s)) (?x\<lparr>pk := Some (next_id (flush s))\<rparr>)
      = ?x\<lparr>pk := Some (next_id (flush s))\<rparr>"
    by (rule sync_fk_plain)
  have "flush ?s1 = ?s1\<lparr>rows := rows ?s1 @ [sync_fk (rows ?s1) (?x\<lparr>pk := Some (next_id ?s1)\<rparr>)],
                     new := [], next_id := next_id ?s1 + 1\<rparr>"
    by (rule flush_one_new) (simp_all add: s1)
  then show ?thesis
    by (simp add: s1 sync)
qed

lemma set_watch_None:
  "set_watch s lid VNone =
     (case find (is_watch lid) (rows (flush s)) of
        Some w \<Rightarrow> delete w (flush s)
      | None \<Rightarrow> flush s)"
  by (simp add: set_watch_def get_watch_find)

lemma flush_delete_flush:
  "flush (delete w (flush s)) = (flush s)\<lparr>rows := filter (\<lambda>x. oref x \<noteq> oref w) (rows (flush s))\<rparr>"
  by (simp add: flush_only_deleted delete_def)

lemma filter_map_upd_same:
  assumes "\<And>y. y \<in> set xs \<Longrightarrow> P (f y) = P y"
  shows "filter P (map f xs) = map f (filter P xs)"
  using assms by (induction xs) auto

lemma watches_Nil_find: "watches s lid = [] \<longleftrightarrow> find (is_watch lid) (rows (flush s)) = None"
  by (simp add: watches_is_watch find_None_filter)

lemma watches_single_find:
  "watches s lid = [w0] \<Longrightarrow> find (is_watch lid) (rows (flush s)) = Some w0"
proof -
  assume a: "watches s lid = [w0]"
  have "find P xs = Some x" if "filter P xs = [x]" for P and xs :: "obj list" and x
    using that by (induction xs) (auto split: if_splits simp add: filter_empty_conv find_None_iff)
  with a show ?thesis by (simp add: watches_is_watch)
qed

lemma set_watch_existing_watches:
  assumes dist: "distinct_refs s"
    and one: "watches s lid = [w0]"
    and time: "time \<noteq> VNone"
  shows "watches (set_watch s lid time) lid = [rearm time w0]"
    and "fresh_refs s \<Longrightarrow> fresh_refs (set_watch s lid time)"
    and "distinct_refs (set_watch s lid time)"
proof -
  let ?fs = "flush s"
  let ?upd = "\<lambda>y. if oref y = oref w0 then rearm time y else y"
  let ?s1 = "set_watch s lid time"
  note found = watches_single_find [OF one]
  have s1: "?s1 = ?fs\<lparr>rows := map ?upd (rows ?fs)\<rparr>"
    by (rule set_watch_existing [OF found time])
  have cl: "clean ?s1" by (simp add: s1 clean_def)
  have fl: "flush ?s1 = ?s1" by (rule flush_clean [OF cl])
  have w0: "w0 \<in> set (rows ?fs)" "is_watch lid w0"
    using find_SomeD [OF found] by simp_all
  have same: "is_watch lid (?upd y) = is_watch lid y" if "y \<in> set (rows ?fs)" for y
  proof (cases "oref y = oref w0")
    case True
    from distinct_oref_eq [OF distinct_refs_rows [OF dist] that w0(1) True] have "y = w0" .
    with w0(2) show ?thesis by (simp add: is_watch_def has_key_def)
  next
    case False
    then show ?thesis by simp
  qed
  have "watches ?s1 lid = filter (is_watch lid) (map ?upd (rows ?fs))"
    by (simp add: watches_is_watch fl) (simp add: s1)
  also have "\<dots> = map ?upd (filter (is_watch lid) (rows ?fs))"
    by (rule filter_map_upd_same) (rule same)
  also have "\<dots> = [rearm time w0]"
    using one by (simp add: watches_is_watch)
  finally show "watches ?s1 lid = [rearm time w0]" .
  have orefs: "map oref (rows ?s1) = map oref (rows ?fs)" "new ?s1 = []" "next_ref ?s1 = next_ref s"
    by (simp_all add: s1 comp_def if_distrib [of oref] cong: if_cong)
  show "fresh_refs ?s1" if "fresh_refs s"
  proof -
    from fresh_refs_flush [OF that] have "\<forall>r\<in>set (map oref (rows ?fs)). r < next_ref s"
      by (auto simp add: fresh_refs_def list_all_iff)
    then have "\<forall>r\<in>set (map oref (rows ?s1)). r < next_ref ?s1"
      by (simp only: orefs)
    then show ?thesis
      by (auto simp add: fresh_refs_def list_all_iff orefs(2))
  qed
  from distinct_refs_rows [OF dist] show "distinct_refs ?s1"
    by (simp add: distinct_refs_def orefs)
qed

lemma set_watch_created_watches:
  assumes fresh: "fresh_refs s"
    and dist: "distinct_refs s"
    and none: "watches s lid = []"
    and time: "time \<noteq> VNone"
  shows "watches (set_watch s lid time) lid =
           [rearm time (new_obj (flush s) Operation (watch_kwargs lid))
              \<lparr>pk := Some (next_id (flush s))\<rparr>]"
    and "fresh_refs (set_watch s lid time)"
    and "distinct_refs (set_watch s lid time)"
proof -
  let ?fs = "flush s"
  let ?x = "rearm time (new_obj ?fs Operation (watch_kwargs lid))"
  let ?s1 = "set_watch s lid time"
  from none have nf: "find (is_watch lid) (rows ?fs) = None"
    by (simp only: watches_Nil_find)
  have s1: "?s1 = ?fs\<lparr>new := [?x], next_ref := next_ref s + 1\<rparr>"
    by (rule set_watch_created [OF fresh nf time])
  have rows1: "rows (flush ?s1) = rows ?fs @ [?x\<lparr>pk := Some (next_id ?fs)\<rparr>]"
    by (rule flush_set_watch_created [OF fresh nf time])
  have "is_watch lid (?x\<lparr>pk := Some (next_id ?fs)\<rparr>)"
    by (simp add: is_watch_def watch_kwargs_attrs has_key_def)
  moreover from none have "filter (is_watch lid) (rows ?fs) = []"
    by (simp add: watches_is_watch)
  ultimately show "watches ?s1 lid = [?x\<lparr>pk := Some (next_id ?fs)\<rparr>]"
    by (simp add: watches_is_watch rows1)
  from fresh_refs_flush [OF fresh] show "fresh_refs ?s1"
    by (auto simp add: fresh_refs_def list_all_iff s1)
  from fresh_refs_rows [OF fresh] distinct_refs_rows [OF dist] show "distinct_refs ?s1"
    by (auto simp add: distinct_refs_def s1)
qed

lemma at_most_one_cases:
  "length xs \<le> 1 \<Longrightarrow> xs = [] \<or> (\<exists>x. xs = [x])"
  by (cases xs) auto

lemma set_watch_step:
  assumes fresh: "fresh_refs s"
    and dist: "distinct_refs s"
    and inv: "length (watches s lid) \<le> 1"
    and time: "time \<noteq> VNone"
  shows "fresh_refs (set_watch s lid time) \<and> distinct_refs (set_watch s lid time)
       \<and> (\<exists>w. watches (set_watch s lid time) lid = [w]
              \<and> attrs w ''params'' = VDict [(''log'', VBool True), (''repeat'', time)]
              \<and> attrs w ''scheduled'' = VNow
              \<and> (watches s lid = [] \<longrightarrow> attrs w ''priority'' = VInt 5)
              \<and> (\<forall>w0. watches s lid = [w0] \<longrightarrow>
                    oref w = oref w0 \<and> attrs w ''priority'' = attrs w0 ''priority''))"
proof -
  from at_most_one_cases [OF inv] show ?thesis
  proof
    assume none: "watches s lid = []"
    note c = set_watch_created_watches [OF fresh dist none time]
    let ?w = "rearm time (new_obj (flush s) Operation (watch_kwargs lid))
                \<lparr>pk := Some (next_id (flush s))\<rparr>"
    have "attrs ?w ''params'' = VDict [(''log'', VBool True), (''repeat'', time)]"
      "attrs ?w ''scheduled'' = VNow" "attrs ?w ''priority'' = VInt 5"
      by (simp_all add: watch_kwargs_attrs)
    with c none show ?thesis by simp
  next
    assume "\<exists>w0. watches s lid = [w0]"
    then obtain w0 where one: "watches s lid = [w0]" by blast
    note e = set_watch_existing_watches [OF dist one time]
    from e(1) e(2) [OF fresh] e(3) one show ?thesis by simp
  qed
qed

lemma filter_map_upd_drop:
  assumes "\<And>y. y \<in> set xs \<Longrightarrow> oref y = r \<Longrightarrow> \<not> P (f y) \<and> \<not> P y"
  shows "filter P (map (\<lambda>y. if oref y = r then f y else y) xs) = filter P xs"
  using assms by (induction xs) auto

lemma set_watch_other_listing:
  assumes fresh: "fresh_refs s"
    and dist: "distinct_refs s"
    and inv: "length (watches s lid) \<le> 1"
    and other: "lid' \<noteq> lid"
  shows "watches (set_watch s lid time) lid' = watches s lid'"
proof -
  let ?fs = "flush s"
  have not_other: "\<not> is_watch lid' y" if "is_watch lid y" for y
    using that other by (auto simp add: is_watch_def)
  from at_most_one_cases [OF inv] show ?thesis
  proof
    assume none: "watches s lid = []"
    then have nf: "find (is_watch lid) (rows ?fs) = None"
      by (simp only: watches_Nil_find)
    show ?thesis
    proof (cases "time = VNone")
      case True
      with nf show ?thesis by (simp add: set_watch_None watches_def)
    next
      case False
      have "\<not> is_watch lid' (rearm time (new_obj ?fs Operation (watch_kwargs lid))
                \<lparr>pk := Some (next_id ?fs)\<rparr>)"
        using other by (simp add: is_watch_def watch_kwargs_attrs)
      then show ?thesis
        by (simp add: watches_is_watch flush_set_watch_created [OF fresh nf False])
    qed
  next
    assume "\<exists>w0. watches s lid = [w0]"
    then obtain w0 where one: "watches s lid = [w0]" by blast
    note found = watches_single_find [OF one]
    have w0: "w0 \<in> set (rows ?fs)" "is_watch lid w0"
      using find_SomeD [OF found] by simp_all
    have only: "y = w0" if "y \<in> set (rows ?fs)" "oref y = oref w0" for y
      using distinct_oref_eq [OF distinct_refs_rows [OF dist] that(1) w0(1) that(2)] .
    show ?thesis
    proof (cases "time = VNone")
      case True
      have "filter (is_watch lid') (filter (\<lambda>x. oref x \<noteq> oref w0) (rows ?fs)) =
            filter (is_watch lid') (rows ?fs)"
        unfolding filter_filter
        by (rule filter_cong [OF refl]) (use only not_other [OF w0(2)] in blast)
      with found True show ?thesis
        by (simp add: set_watch_None watches_is_watch flush_delete_flush)
    next
      case False
      let ?upd = "\<lambda>y. if oref y = oref w0 then rearm time y else y"
      let ?s1 = "set_watch s lid time"
      have s1: "?s1 = ?fs\<lparr>rows := map ?upd (rows ?fs)\<rparr>"
        by (rule set_watch_existing [OF found False])
      have fl: "flush ?s1 = ?s1"
        by (rule flush_clean) (simp add: s1 clean_def)
      have keep: "\<not> is_watch lid' (rearm time y) \<and> \<not> is_watch lid' y"
        if "y \<in> set (rows ?fs)" "oref y = oref w0" for y
        using only [OF that] w0(2) other by (simp add: is_watch_rearm is_watch_def)
      have "watches ?s1 lid' = filter (is_watch lid') (map ?upd (rows ?fs))"
        by (simp add: watches_is_watch fl) (simp add: s1)
      also have "\<dots> = filter (is_watch lid') (rows ?fs)"
        by (rule filter_map_upd_drop) (rule keep)
      finally show ?thesis by (simp add: watches_is_watch)
    qed
  qed
qed

lemma watches_flush [simp]: "watches (flush s) lid = watches s lid"
  by (simp add: watches_def)

lemma set_watch_None_watches:
  assumes inv: "length (watches s lid) \<le> 1"
  shows "watches (set_watch s lid VNone) lid = []"
    and "watches s lid = [] \<Longrightarrow> set_watch s lid VNone = flush s"
    and "watches s lid = [w0] \<Longrightarrow>
         rows (flush (set_watch s lid VNone)) = filter (\<lambda>x. oref x \<noteq> oref w0) (rows (flush s))"
proof -
  show none: "set_watch s lid VNone = flush s" if "watches s lid = []"
    using that by (simp add: set_watch_None watches_Nil_find)
  show one: "rows (flush (set_watch s lid VNone)) = filter (\<lambda>x. oref x \<noteq> oref w0) (rows (flush s))"
    if "watches s lid = [w0]" for w0
    using watches_single_find [OF that] by (simp add: set_watch_None flush_delete_flush)
  from at_most_one_cases [OF inv] show "watches (set_watch s lid VNone) lid = []"
  proof
    assume e: "watches s lid = []"
    with none [OF e] show ?thesis by simp
  next
    assume "\<exists>w. watches s lid = [w]"
    then obtain w where w: "watches s lid = [w]" by blast
    have "watches (set_watch s lid VNone) lid =
          filter (is_watch lid) (filter (\<lambda>x. oref x \<noteq> oref w) (rows (flush s)))"
      by (simp only: watches_is_watch one [OF w])
    also have "\<dots> = filter (\<lambda>x. oref x \<noteq> oref w) (filter (is_watch lid) (rows (flush s)))"
      by (simp add: conj_commute)
    also have "\<dots> = []"
      using w by (simp add: watches_is_watch)
    finally show ?thesis .
  qed
qed

text \<open>
  Claim C7. A watch is, in the words of the specification, an Operation of kind
  \<open>UpdateAmazonListing\<close> whose params contain a \<open>repeat\<close> key; \<open>watches s lid\<close> are
  the rows of the store that are watches for the listing. In a session in which the
  listing has at most one watch, two calls \<open>set_watch(id, time)\<close> with a time that is
  not \<open>None\<close> leave exactly one watch for the listing, the same Operation after the
  first call and after the second: its params are \<open>{log: True, repeat: time}\<close> and its
  \<open>scheduled\<close> is the store's \<open>now()\<close>; its priority is 5 when the call created it,
  and the priority of the existing watch otherwise. \<open>set_watch(id, None)\<close> leaves no
  watch for the listing: it deletes the watch when there is one, and no other row, and
  otherwise only flushes. The watches of the other listings stay as they are, so that at
  most one watch per listing is preserved.
\<close>

theorem set_watch_rearms_one_watch:
  assumes fresh: "fresh_refs s"
    and dist: "distinct_refs s"
    and inv: "length (watches s lid) \<le> 1"
  shows "(time \<noteq> VNone \<longrightarrow>
          (\<exists>w. watches (set_watch (set_watch s lid time) lid time) lid = [w]
              \<and> attrs w ''params'' = VDict [(''log'', VBool True), (''repeat'', time)]
              \<and> attrs w ''scheduled'' = VNow
              \<and> (watches s lid = [] \<longrightarrow> attrs w ''priority'' = VInt 5)
              \<and> (\<forall>w0. watches s lid = [w0] \<longrightarrow>
                    oref w = oref w0 \<and> attrs w ''priority'' = attrs w0 ''priority'')
              \<and> (\<exists>w1. watches (set_watch s lid time) lid = [w1] \<and> oref w1 = oref w
                    \<and> attrs w1 ''params'' = VDict [(''log'', VBool True), (''repeat'', time)]
                    \<and> attrs w1 ''scheduled'' = VNow)))
       \<and> watches (set_watch s lid VNone) lid = []
       \<and> (watches s lid = [] \<longrightarrow> set_watch s lid VNone = flush s)
       \<and> (\<forall>w0. watches s lid = [w0] \<longrightarrow>
             rows (flush (set_watch s lid VNone)) =
             filter (\<lambda>x. oref x \<noteq> oref w0) (rows (flush s)))
       \<and> (\<forall>lid'. lid' \<noteq> lid \<longrightarrow> watches (set_watch s lid time) lid' = watches s lid')"
proof -
  have twice: "\<exists>w. watches (set_watch (set_watch s lid time) lid time) lid = [w]
              \<and> attrs w ''params'' = VDict [(''log'', VBool True), (''repeat'', time)]
              \<and> attrs w ''scheduled'' = VNow
              \<and> (watches s lid = [] \<longrightarrow> attrs w ''priority'' = VInt 5)
              \<and> (\<forall>w0. watches s lid = [w0] \<longrightarrow>
                    oref w = oref w0 \<and> attrs w ''priority'' = attrs w0 ''priority'')
              \<and> (\<exists>w1. watches (set_watch s lid time) lid = [w1] \<and> oref w1 = oref w
                    \<and> attrs w1 ''params'' = VDict [(''log'', VBool True), (''repeat'', time)]
                    \<and> attrs w1 ''scheduled'' = VNow)"
    if time: "time \<noteq> VNone"
  proof -
    let ?s1 = "set_watch s lid time"
    from set_watch_step [OF fresh dist inv time] obtain w1 where
      d1: "distinct_refs ?s1"
      and w1: "watches ?s1 lid = [w1]"
        "attrs w1 ''params'' = VDict [(''log'', VBool True), (''repeat'', time)]"
        "attrs w1 ''scheduled'' = VNow"
        "watches s lid = [] \<longrightarrow> attrs w1 ''priority'' = VInt 5"
        "\<forall>w0. watches s lid = [w0] \<longrightarrow>
            oref w1 = oref w0 \<and> attrs w1 ''priority'' = attrs w0 ''priority''"
      by blast
    from set_watch_existing_watches(1) [OF d1 w1(1) time]
    have "watches (set_watch ?s1 lid time) lid = [rearm time w1]" .
    with w1 show ?thesis by simp
  qed
  note n = set_watch_None_watches [OF inv]
  from twice n set_watch_other_listing [OF fresh dist inv, of _ time] show ?thesis
    by blast
qed

lemma distinct_refs_empty_session: "distinct_refs empty_session"
  by (simp add: distinct_refs_def empty_session_def)

lemma watches_empty_session: "watches empty_session lid = []"
  by (simp add: watches_def flush_empty_session) (simp add: empty_session_def)

text \<open>
  The theorem on an empty store, for the listing 8 and the interval \<open>'1d'\<close>.
\<close>

theorem set_watch_rearms_one_watch_witness:
  "fresh_refs empty_session \<and> distinct_refs empty_session
   \<and> watches empty_session 8 = []
   \<and> length (watches (set_watch (set_watch empty_session 8 (VStr ''1d'')) 8 (VStr ''1d'')) 8) = 1
   \<and> map (\<lambda>w. attrs w ''priority'')
        (watches (set_watch (set_watch empty_session 8 (VStr ''1d'')) 8 (VStr ''1d'')) 8)
       = [VInt 5]
   \<and> map (\<lambda>w. attrs w ''params'')
        (watches (set_watch (set_watch empty_session 8 (VStr ''1d'')) 8 (VStr ''1d'')) 8)
       = [VDict [(''log'', VBool True), (''repeat'', VStr ''1d'')]]
   \<and> map (\<lambda>w. attrs w ''scheduled'')
        (watches (set_watch (set_watch empty_session 8 (VStr ''1d'')) 8 (VStr ''1d'')) 8)
       = [VNow]
   \<and> watches (set_watch empty_session 8 VNone) 8 = []"
proof -
  let ?t = "VStr ''1d''"
  let ?s2 = "set_watch (set_watch empty_session 8 ?t) 8 ?t"
  have inv: "length (watches empty_session 8) \<le> 1"
    by (simp add: watches_empty_session)
  have time: "?t \<noteq> VNone" by simp
  note t = set_watch_rearms_one_watch [OF fresh_refs_empty_session distinct_refs_empty_session inv,
      of ?t]
  from t time watches_empty_session [of 8] obtain w where
    w: "watches ?s2 8 = [w]"
      "attrs w ''params'' = VDict [(''log'', VBool True), (''repeat'', ?t)]"
      "attrs w ''scheduled'' = VNow" "attrs w ''priority'' = VInt 5"
    by blast
  from t have n: "watches (set_watch empty_session 8 VNone) 8 = []"
    by blast
  from w have "length (watches ?s2 8) = 1"
    "map (\<lambda>w. attrs w ''priority'') (watches ?s2 8) = [VInt 5]"
    "map (\<lambda>w. attrs w ''params'') (watches ?s2 8) = [VDict [(''log'', VBool True), (''repeat'', ?t)]]"
    "map (\<lambda>w. attrs w ''scheduled'') (watches ?s2 8) = [VNow]"
    by simp_all
  with fresh_refs_empty_session distinct_refs_empty_session watches_empty_session [of 8] n
  show ?thesis by blast
qed

section \<open>Properties of add_ids_to_list and remove_ids_from_list\<close>

lemma plain_pk_val [simp]: "plain (pk_val l)"
  by (simp add: pk_val_def plain_def split: option.splits)

lemma plain_id_of [simp]: "plain (id_of os r)"
  by (simp add: id_of_def split: option.splits) (simp add: plain_def)

lemma named_list_iff:
  "(is_instance z List \<and> filter_by [(''name'', VStr list_name)] t z) = named_list list_name z"
  by (simp add: named_list_def is_instance_proper filter_by_name)

lemma membership_filter_rel:
  "(is_instance z ListMembership
      \<and> filter_by [(''list'', VObj r), (''listing_id'', VInt x)] t z)
   = member_for (id_of (rows t) r) x z"
  by (auto simp add: member_for_def member_of_def is_instance_proper filter_by_def)

lemma membership_filter_col:
  "plain lv \<Longrightarrow>
   (is_instance z ListMembership
      \<and> filter_by [(''list_id'', lv), (''listing_id'', VInt x)] t z)
   = member_for lv x z"
  by (cases lv) (auto simp add: member_for_def member_of_def is_instance_proper filter_by_def plain_def)

lemma remove_ids_loop_step:
  "remove_ids_loop s rm_list (x # rest) =
     remove_ids_loop
       (case find (member_for (pk_val rm_list) x) (rows (flush s)) of
          Some m \<Rightarrow> delete m (flush s)
        | None \<Rightarrow> flush s) rm_list rest"
  by (simp add: query_first_def Let_def membership_filter_col)

lemma flush_remove_step:
  "rows (flush (case find (member_for lv x) (rows (flush s)) of
          Some m \<Rightarrow> delete m (flush s)
        | None \<Rightarrow> flush s)) = del_first lv x (rows (flush s))"
  by (simp add: del_first_def flush_delete_flush split: option.splits)

lemma remove_ids_loop_rows:
  "rows (flush (remove_ids_loop s rm_list xs)) =
   foldl (\<lambda>R x. del_first (pk_val rm_list) x R) (rows (flush s)) xs"
proof (induction xs arbitrary: s)
  case Nil
  then show ?case by simp
next
  case (Cons x xs)
  show ?case
    by (simp only: remove_ids_loop_step Cons.IH flush_remove_step foldl_Cons)
qed

lemma del_first_subset: "set (del_first lv x R) \<subseteq> set R"
  by (auto simp add: del_first_def split: option.splits)

lemma filter_del_first_length:
  "length (filter P (del_first lv x R)) \<le> length (filter P R)"
proof (cases "find (member_for lv x) R")
  case None
  then show ?thesis by (simp add: del_first_def)
next
  case (Some m)
  have "filter P (filter (\<lambda>z. oref z \<noteq> oref m) R) = filter (\<lambda>z. oref z \<noteq> oref m) (filter P R)"
    by (simp add: conj_commute)
  then have "length (filter P (filter (\<lambda>z. oref z \<noteq> oref m) R)) \<le> length (filter P R)"
    by (simp only: length_filter_le)
  moreover have "del_first lv x R = filter (\<lambda>z. oref z \<noteq> oref m) R"
    by (simp add: del_first_def Some)
  ultimately show ?thesis by (simp only:)
qed

lemma del_first_clears:
  assumes "length (filter (member_for lv x) R) \<le> 1"
  shows "filter (member_for lv x) (del_first lv x R) = []"
proof (cases "find (member_for lv x) R")
  case None
  then have "filter (member_for lv x) R = []" by (simp only: find_None_filter)
  with None show ?thesis by (simp add: del_first_def)
next
  case (Some m)
  define F where "F = filter (member_for lv x) R"
  from find_SomeD [OF Some] have "m \<in> set F" by (simp add: F_def)
  moreover from assms have "length F \<le> 1" by (simp only: F_def)
  ultimately have "F = [m]" by (cases F) auto
  then have one: "filter (member_for lv x) R = [m]" by (simp only: F_def)
  have "filter (member_for lv x) (filter (\<lambda>z. oref z \<noteq> oref m) R) =
        filter (\<lambda>z. oref z \<noteq> oref m) (filter (member_for lv x) R)"
    by (simp add: conj_commute)
  moreover have "del_first lv x R = filter (\<lambda>z. oref z \<noteq> oref m) R"
    by (simp add: del_first_def Some)
  ultimately show ?thesis using one by (simp only:) simp
qed

lemma foldl_del_first_length:
  "length (filter P (foldl (\<lambda>R x. del_first lv x R) R xs)) \<le> length (filter P R)"
proof (induction xs arbitrary: R)
  case Nil
  then show ?case by simp
next
  case (Cons x xs)
  have "length (filter P (foldl (\<lambda>R x. del_first lv x R) (del_first lv x R) xs))
        \<le> length (filter P (del_first lv x R))"
    by (rule Cons.IH)
  also have "\<dots> \<le> length (filter P R)"
    by (rule filter_del_first_length)
  finally show ?case by simp
qed

lemma foldl_del_first_subset: "set (foldl (\<lambda>R x. del_first lv x R) R xs) \<subseteq> set R"
proof (induction xs arbitrary: R)
  case Nil
  then show ?case by simp
next
  case (Cons x xs)
  from Cons.IH [of "del_first lv x R"] del_first_subset [of lv x R]
  show ?case by auto
qed

lemma foldl_del_first_clears:
  assumes "x \<in> set xs" "length (filter (member_for lv x) R) \<le> 1"
  shows "filter (member_for lv x) (foldl (\<lambda>R x. del_first lv x R) R xs) = []"
  using assms
proof (induction xs arbitrary: R)
  case Nil
  then show ?case by simp
next
  case (Cons y ys)
  show ?case
  proof (cases "x = y")
    case True
    from del_first_clears [OF Cons.prems(2)]
    have "length (filter (member_for lv x) (del_first lv x R)) = 0" by simp
    with foldl_del_first_length [of "member_for lv x" lv "del_first lv x R" ys]
    show ?thesis by (simp add: True)
  next
    case False
    with Cons.prems(1) have "x \<in> set ys" by simp
    moreover from filter_del_first_length [of "member_for lv x" lv y R] Cons.prems(2)
    have "length (filter (member_for lv x) (del_first lv y R)) \<le> 1" by simp
    ultimately show ?thesis
      using Cons.IH by simp
  qed
qed

lemma ready_id_of:
  assumes "ready s r lv"
  shows "id_of (rows (flush s)) r = lv"
proof -
  from assms obtain l where l: "l \<in> set (rows (flush s))" "oref l = r" "pk_val l = lv"
    by (auto simp add: ready_def list_ex_iff)
  from assms have d: "distinct (map oref (rows (flush s)))"
    by (simp add: ready_def distinct_refs_rows)
  from l(1,2) have "find (\<lambda>x. oref x = r) (rows (flush s)) \<noteq> None"
    by (auto simp add: find_None_iff)
  then obtain l' where f: "find (\<lambda>x. oref x = r) (rows (flush s)) = Some l'"
    by auto
  from find_SomeD [OF f] have "l' \<in> set (rows (flush s))" "oref l' = r" by simp_all
  with distinct_oref_eq [OF d this(1) l(1)] l(2) have "l' = l" by simp
  with f l(3) show ?thesis by (simp add: id_of_def)
qed

lemma ready_flush: "ready s r lv \<Longrightarrow> ready (flush s) r lv"
  by (simp add: ready_def fresh_refs_flush distinct_refs_flush)

lemma membership_kwargs_attrs:
  "attrs (new_obj s ListMembership [(''list'', VObj r), (''listing_id'', VInt x)]) ''list'' = VObj r"
  "attrs (new_obj s ListMembership [(''list'', VObj r), (''listing_id'', VInt x)]) ''listing_id'' = VInt x"
  by (simp_all add: new_obj_attrs_in)

lemma sync_fk_one:
  assumes "attrs x rel = VObj r" and "\<And>k. k \<noteq> rel \<Longrightarrow> plain (attrs x k)"
  shows "sync_fk os x = x\<lparr>attrs := (attrs x)(rel @ ''_id'' := id_of os r)\<rparr>"
proof -
  have "attrs (sync_fk os x) k = ((attrs x)(rel @ ''_id'' := id_of os r)) k" for k
  proof (cases "relationship_of k")
    case None
    then have "k \<noteq> rel @ ''_id''"
      using relationship_of_iff [of k rel] by auto
    with None show ?thesis by (simp add: sync_fk_attrs)
  next
    case (Some rel')
    show ?thesis
    proof (cases "rel' = rel")
      case True
      with Some have "k = rel @ ''_id''" by (simp only: relationship_of_iff)
      with Some True assms(1) show ?thesis by (simp add: sync_fk_attrs)
    next
      case False
      with Some have "k \<noteq> rel @ ''_id''"
        using relationship_of_iff [of k rel] by auto
      moreover from assms(2) [OF False] have "attrs x rel' \<noteq> VObj r'" for r'
        by (auto simp add: plain_def)
      ultimately show ?thesis
        using Some by (simp add: sync_fk_attrs split: val.splits)
    qed
  qed
  then have "attrs (sync_fk os x) = (attrs x)(rel @ ''_id'' := id_of os r)"
    by (rule ext)
  then show ?thesis
    by (intro obj.equality) simp_all
qed

lemma membership_kwargs_plain:
  "k \<noteq> ''list'' \<Longrightarrow>
   plain (attrs (new_obj s ListMembership [(''list'', VObj r), (''listing_id'', VInt x)]) k)"
  by (cases "k = ''listing_id''") (simp_all add: new_obj_attrs_in new_obj_attrs_notin plain_def)

lemma ensure_membership:
  assumes rdy: "ready s r lv"
    and goc: "get_or_create s ListMembership [(''list'', VObj r), (''listing_id'', VInt x)] = (m, s1)"
  shows "ready s1 r lv
       \<and> (\<exists>ext. rows (flush s1) = rows (flush s) @ ext
              \<and> (\<forall>z\<in>set ext. member_for lv x z)
              \<and> (filter (member_for lv x) (rows (flush s)) \<noteq> [] \<longrightarrow> ext = [])
              \<and> length ext \<le> 1)"
proof -
  let ?kw = "[(''list'', VObj r), (''listing_id'', VInt x)]"
  let ?fs = "flush s"
  from rdy have fresh: "fresh_refs s" and dist: "distinct_refs s"
    by (simp_all add: ready_def)
  have crit: "(\<lambda>z. is_instance z ListMembership \<and> filter_by ?kw ?fs z) = member_for lv x"
    by (rule ext) (simp only: membership_filter_rel ready_id_of [OF rdy])
  show ?thesis
  proof (cases "find (member_for lv x) (rows ?fs)")
    case (Some z)
    then have "find (\<lambda>z. is_instance z ListMembership \<and> filter_by ?kw ?fs z) (rows ?fs) = Some z"
      by (simp only: crit)
    from get_or_create_found [OF this] goc have "s1 = ?fs" by simp
    with ready_flush [OF rdy] show ?thesis by simp
  next
    case None
    then have nf: "find (\<lambda>z. is_instance z ListMembership \<and> filter_by ?kw ?fs z) (rows ?fs) = None"
      by (simp only: crit)
    let ?nx = "new_obj ?fs ListMembership ?kw"
    let ?m = "?nx\<lparr>pk := Some (next_id ?fs), attrs := (attrs ?nx)(''list_id'' := lv)\<rparr>"
    from get_or_create_created [OF fresh nf] goc
    have s1: "s1 = ?fs\<lparr>new := [?nx], next_ref := next_ref s + 1\<rparr>"
      by simp
    have sync: "sync_fk (rows ?fs) (?nx\<lparr>pk := Some (next_id ?fs)\<rparr>) = ?m"
      using sync_fk_one [of "?nx\<lparr>pk := Some (next_id ?fs)\<rparr>" "''list''" r "rows ?fs"]
      by (simp add: membership_kwargs_attrs membership_kwargs_plain ready_id_of [OF rdy])
    have "flush s1 = s1\<lparr>rows := rows s1 @ [sync_fk (rows s1) (?nx\<lparr>pk := Some (next_id s1)\<rparr>)],
                     new := [], next_id := next_id s1 + 1\<rparr>"
      by (rule flush_one_new) (simp_all add: s1)
    then have rows1: "rows (flush s1) = rows ?fs @ [?m]"
      by (simp add: s1 sync)
    have mem: "member_for lv x ?m"
      by (simp add: member_for_def member_of_def membership_kwargs_attrs)
    from get_or_create_fresh [OF fresh goc] have f1: "fresh_refs s1" .
    from fresh_refs_rows [OF fresh] distinct_refs_rows [OF dist] have d1: "distinct_refs s1"
      by (auto simp add: distinct_refs_def s1)
    from rdy have "list_ex (\<lambda>l. oref l = r \<and> pk_val l = lv) (rows (flush s1))"
      by (auto simp add: ready_def rows1 list_ex_iff)
    with f1 d1 have "ready s1 r lv" by (simp add: ready_def)
    moreover from None have "filter (member_for lv x) (rows ?fs) = []"
      by (simp only: find_None_filter)
    ultimately show ?thesis using rows1 mem by simp
  qed
qed

lemma member_for_other:
  "member_for lv x z \<Longrightarrow> y \<noteq> x \<Longrightarrow> \<not> member_for lv y z"
  by (simp add: member_for_def)

lemma ensure_count:
  assumes ext: "\<forall>z\<in>set ext. member_for lv x z"
    and found: "filter (member_for lv x) R \<noteq> [] \<longrightarrow> ext = []"
    and len: "length ext \<le> 1"
  shows "length (filter (member_for lv y) (R @ ext)) \<le> max 1 (length (filter (member_for lv y) R))"
proof (cases "y = x")
  case True
  show ?thesis
  proof (cases "filter (member_for lv x) R = []")
    case e: True
    have "length (filter (member_for lv x) ext) \<le> 1"
      by (rule le_trans [OF length_filter_le len])
    with e True show ?thesis by simp
  next
    case False
    with found True show ?thesis by simp
  qed
next
  case False
  with ext have "filter (member_for lv y) ext = []"
    by (auto simp add: filter_empty_conv dest: member_for_other)
  then show ?thesis by simp
qed

lemma add_ids_loop_rows:
  assumes "ready s r lv" "oref add_list = r"
  shows "ready (add_ids_loop s add_list xs) r lv
       \<and> (\<exists>ext. rows (flush (add_ids_loop s add_list xs)) = rows (flush s) @ ext
              \<and> (\<forall>z\<in>set ext. \<exists>x\<in>set xs. member_for lv x z)
              \<and> (\<forall>y. length (filter (member_for lv y) (rows (flush s) @ ext))
                        \<le> max 1 (length (filter (member_for lv y) (rows (flush s))))))"
  using assms(1)
proof (induction xs arbitrary: s)
  case Nil
  then show ?case by simp
next
  case (Cons x xs)
  let ?kw = "[(''list'', VObj r), (''listing_id'', VInt x)]"
  obtain m s1 where goc: "get_or_create s ListMembership ?kw = (m, s1)"
    by (cases "get_or_create s ListMembership ?kw") auto
  from ensure_membership [OF Cons.prems goc] obtain ext1 where
    r1: "ready s1 r lv"
    and e1: "rows (flush s1) = rows (flush s) @ ext1"
      "\<forall>z\<in>set ext1. member_for lv x z"
      "filter (member_for lv x) (rows (flush s)) \<noteq> [] \<longrightarrow> ext1 = []"
      "length ext1 \<le> 1"
    by blast
  have step: "add_ids_loop s add_list (x # xs) = add_ids_loop s1 add_list xs"
    by (simp add: assms(2) goc)
  from Cons.IH [OF r1] obtain ext2 where
    r2: "ready (add_ids_loop s1 add_list xs) r lv"
    and e2: "rows (flush (add_ids_loop s1 add_list xs)) = rows (flush s1) @ ext2"
      "\<forall>z\<in>set ext2. \<exists>x\<in>set xs. member_for lv x z"
      "\<forall>y. length (filter (member_for lv y) (rows (flush s1) @ ext2))
                        \<le> max 1 (length (filter (member_for lv y) (rows (flush s1))))"
    by blast
  have rows: "rows (flush (add_ids_loop s add_list (x # xs))) = rows (flush s) @ (ext1 @ ext2)"
    by (simp only: step e2(1) e1(1) append_assoc)
  have mem: "\<forall>z\<in>set (ext1 @ ext2). \<exists>y\<in>set (x # xs). member_for lv y z"
    using e1(2) e2(2) by auto
  have cnt: "length (filter (member_for lv y) (rows (flush s) @ (ext1 @ ext2)))
                        \<le> max 1 (length (filter (member_for lv y) (rows (flush s))))" for y
  proof -
    from e2(3) have "length (filter (member_for lv y) (rows (flush s) @ (ext1 @ ext2)))
        \<le> max 1 (length (filter (member_for lv y) (rows (flush s) @ ext1)))"
      by (simp add: e1(1))
    also have "\<dots> \<le> max 1 (max 1 (length (filter (member_for lv y) (rows (flush s)))))"
      using ensure_count [OF e1(2,3,4), of y] by simp
    finally show ?thesis by simp
  qed
  from r2 rows mem cnt show ?case
    by (simp only: step) blast
qed

lemma find_append_Some: "find P xs = Some x \<Longrightarrow> find P (xs @ ys) = Some x"
  by (induction xs) (auto split: if_splits)

lemma list_kwargs_attrs:
  "attrs (new_obj s List [(''name'', VStr n)]) ''name'' = VStr n"
  "attrs (new_obj s List [(''name'', VStr n)]) ''list'' = VNone"
  by (simp_all add: new_obj_attrs_in new_obj_attrs_notin)

lemma list_ensure:
  assumes fresh: "fresh_refs s"
    and dist: "distinct_refs s"
    and goc: "get_or_create s List [(''name'', VStr list_name)] = (l, s1)"
  shows "ready s1 (oref l) (list_key s list_name)
       \<and> (\<exists>ext. rows (flush s1) = rows (flush s) @ ext
              \<and> (\<forall>z\<in>set ext. dtype z = List)
              \<and> (\<exists>l'. find (named_list list_name) (rows (flush s) @ ext) = Some l'
                     \<and> pk_val l' = list_key s list_name))"
proof -
  let ?kw = "[(''name'', VStr list_name)]"
  let ?fs = "flush s"
  have crit: "(\<lambda>z. is_instance z List \<and> filter_by ?kw ?fs z) = named_list list_name"
    by (rule ext) (simp only: named_list_iff)
  show ?thesis
  proof (cases "find (named_list list_name) (rows ?fs)")
    case (Some l0)
    then have "find (\<lambda>z. is_instance z List \<and> filter_by ?kw ?fs z) (rows ?fs) = Some l0"
      by (simp only: crit)
    from get_or_create_found [OF this] goc have 1: "l = l0" "s1 = ?fs" by simp_all
    from Some have key: "list_key s list_name = pk_val l0"
      by (simp add: list_key_def)
    from find_SomeD [OF Some] have "l0 \<in> set (rows ?fs)" by simp
    then have "list_ex (\<lambda>z. oref z = oref l0 \<and> pk_val z = pk_val l0) (rows (flush ?fs))"
      by (auto simp add: list_ex_iff)
    with fresh_refs_flush [OF fresh] distinct_refs_flush [OF dist]
    have rdy: "ready s1 (oref l) (list_key s list_name)"
      by (simp add: ready_def 1 key)
    have rows1: "rows (flush s1) = rows ?fs @ []" by (simp add: 1)
    have fl: "find (named_list list_name) (rows ?fs @ []) = Some l0" using Some by simp
    show ?thesis
    proof (intro conjI exI)
      show "ready s1 (oref l) (list_key s list_name)" by (rule rdy)
      show "rows (flush s1) = rows ?fs @ []" by (rule rows1)
      show "\<forall>z\<in>set []. dtype z = List" by simp
      show "find (named_list list_name) (rows ?fs @ []) = Some l0" by (rule fl)
      show "pk_val l0 = list_key s list_name" by (simp only: key)
    qed
  next
    case None
    then have nf: "find (\<lambda>z. is_instance z List \<and> filter_by ?kw ?fs z) (rows ?fs) = None"
      by (simp only: crit)
    let ?nx = "new_obj ?fs List ?kw"
    let ?l = "?nx\<lparr>pk := Some (next_id ?fs)\<rparr>"
    from None have key: "list_key s list_name = VInt (next_id ?fs)"
      by (simp add: list_key_def)
    from get_or_create_created [OF fresh nf] goc
    have 1: "l = ?nx" "s1 = ?fs\<lparr>new := [?nx], next_ref := next_ref s + 1\<rparr>"
      by simp_all
    have "plain (attrs ?l k)" for k
      using new_obj_plain [of ?kw ?fs List k] by (simp add: plain_def)
    then have sync: "sync_fk (rows ?fs) ?l = ?l" by (rule sync_fk_plain)
    have "flush s1 = s1\<lparr>rows := rows s1 @ [sync_fk (rows s1) (?nx\<lparr>pk := Some (next_id s1)\<rparr>)],
                     new := [], next_id := next_id s1 + 1\<rparr>"
      by (rule flush_one_new) (simp_all add: 1)
    then have rows1: "rows (flush s1) = rows ?fs @ [?l]"
      by (simp add: 1 sync)
    from get_or_create_fresh [OF fresh goc] have f1: "fresh_refs s1" .
    from fresh_refs_rows [OF fresh] distinct_refs_rows [OF dist] have d1: "distinct_refs s1"
      by (auto simp add: distinct_refs_def 1)
    have "list_ex (\<lambda>z. oref z = oref l \<and> pk_val z = list_key s list_name) (rows (flush s1))"
      unfolding rows1 by (simp add: key 1(1) pk_val_def)
    with f1 d1 have rdy: "ready s1 (oref l) (list_key s list_name)" by (simp add: ready_def)
    have "named_list list_name ?l"
      by (simp add: named_list_def list_kwargs_attrs)
    with None have fl: "find (named_list list_name) (rows ?fs @ [?l]) = Some ?l"
      by (simp add: find_append_None)
    have pl: "pk_val ?l = list_key s list_name" by (simp add: key pk_val_def)
    show ?thesis
    proof (intro conjI exI)
      show "ready s1 (oref l) (list_key s list_name)" by (rule rdy)
      show "rows (flush s1) = rows ?fs @ [?l]" by (rule rows1)
      show "\<forall>z\<in>set [?l]. dtype z = List" by simp
      show "find (named_list list_name) (rows ?fs @ [?l]) = Some ?l" by (rule fl)
      show "pk_val ?l = list_key s list_name" by (rule pl)
    qed
  qed
qed

lemma set_is_amazon_fields [simp]:
  "oref (set_is_amazon r v z) = oref z"
  "dtype (set_is_amazon r v z) = dtype z"
  "pk_val (set_is_amazon r v z) = pk_val z"
  "member_of lv (set_is_amazon r v z) = member_of lv z"
  "member_for lv x (set_is_amazon r v z) = member_for lv x z"
  "named_list n (set_is_amazon r v z) = named_list n z"
  by (simp_all add: set_is_amazon_def pk_val_def member_of_def member_for_def named_list_def)

lemma setattr_is_amazon_rows:
  "rows (flush (snd (setattr x ''is_amazon'' v (flush s)))) =
   map (set_is_amazon (oref x) v) (rows (flush s))"
proof -
  have "clean (snd (setattr x ''is_amazon'' v (flush s)))"
    by (simp add: clean_def)
  then have "flush (snd (setattr x ''is_amazon'' v (flush s))) = snd (setattr x ''is_amazon'' v (flush s))"
    by (rule flush_clean)
  then show ?thesis
    by (simp add: set_is_amazon_def [abs_def])
qed

lemma add_ids_to_list_nonempty:
  "add_ids_to_list s (a # ids) list_name =
     (Inr (),
      snd (setattr (fst (get_or_create s List [(''name'', VStr list_name)])) ''is_amazon''
             (VBool (case fst (query_first
                                (add_ids_loop (snd (get_or_create s List [(''name'', VStr list_name)]))
                                   (fst (get_or_create s List [(''name'', VStr list_name)])) (a # ids))
                                Listing (filter_by_id a)) of
                       None \<Rightarrow> False
                     | Some f \<Rightarrow> is_instance f AmazonListing))
             (flush (add_ids_loop (snd (get_or_create s List [(''name'', VStr list_name)]))
                       (fst (get_or_create s List [(''name'', VStr list_name)])) (a # ids)))))"
  by (simp add: add_ids_to_list_def case_prod_beta Let_def del: add_ids_loop.simps)

lemma add_ids_to_list_rows:
  assumes fresh: "fresh_refs s" and dist: "distinct_refs s"
  shows "\<exists>r v ext.
           rows (flush (snd (add_ids_to_list s (a # ids) list_name))) =
             map (set_is_amazon r v) (rows (flush s) @ ext)
         \<and> distinct (map oref (rows (flush s) @ ext))
         \<and> (\<forall>z\<in>set ext. dtype z = List \<or> (\<exists>x\<in>set (a # ids). member_for (list_key s list_name) x z))
         \<and> (\<forall>y. length (filter (member_for (list_key s list_name) y) (rows (flush s) @ ext))
                 \<le> max 1 (length (filter (member_for (list_key s list_name) y) (rows (flush s)))))
         \<and> (\<exists>l'. find (named_list list_name) (rows (flush s) @ ext) = Some l'
                \<and> pk_val l' = list_key s list_name)"
proof -
  let ?lv = "list_key s list_name"
  let ?g = "get_or_create s List [(''name'', VStr list_name)]"
  let ?s2 = "add_ids_loop (snd ?g) (fst ?g) (a # ids)"
  from list_ensure [OF fresh dist prod.collapse [symmetric, of ?g]] obtain ext1 l' where
    rdy1: "ready (snd ?g) (oref (fst ?g)) ?lv"
    and e1: "rows (flush (snd ?g)) = rows (flush s) @ ext1"
      "\<forall>z\<in>set ext1. dtype z = List"
      "find (named_list list_name) (rows (flush s) @ ext1) = Some l'"
      "pk_val l' = ?lv"
    by blast
  from add_ids_loop_rows [OF rdy1 refl, of "a # ids"] obtain ext2 where
    rdy2: "ready ?s2 (oref (fst ?g)) ?lv"
    and e2: "rows (flush ?s2) = rows (flush (snd ?g)) @ ext2"
      "\<forall>z\<in>set ext2. \<exists>x\<in>set (a # ids). member_for ?lv x z"
      "\<forall>y. length (filter (member_for ?lv y) (rows (flush (snd ?g)) @ ext2))
            \<le> max 1 (length (filter (member_for ?lv y) (rows (flush (snd ?g)))))"
    by blast
  have rows2: "rows (flush ?s2) = rows (flush s) @ (ext1 @ ext2)"
    by (simp only: e2(1) e1(1) append_assoc)
  have nomem: "filter (member_for ?lv y) ext1 = []" for y
    using e1(2) by (auto simp add: filter_empty_conv member_for_def member_of_def)
  have cnt: "length (filter (member_for ?lv y) (rows (flush s) @ (ext1 @ ext2)))
                 \<le> max 1 (length (filter (member_for ?lv y) (rows (flush s))))" for y
    using e2(3) [rule_format, of y] by (simp add: e1(1) nomem)
  show ?thesis
  proof (intro exI conjI)
    show "rows (flush (snd (add_ids_to_list s (a # ids) list_name))) =
          map (set_is_amazon (oref (fst ?g))
                 (VBool (case fst (query_first ?s2 Listing (filter_by_id a)) of
                       None \<Rightarrow> False
                     | Some f \<Rightarrow> is_instance f AmazonListing)))
            (rows (flush s) @ (ext1 @ ext2))"
      by (simp only: add_ids_to_list_nonempty snd_conv setattr_is_amazon_rows rows2)
    show "distinct (map oref (rows (flush s) @ (ext1 @ ext2)))"
      using rdy2 by (simp only: rows2 [symmetric]) (simp add: ready_def distinct_refs_rows)
    show "\<forall>z\<in>set (ext1 @ ext2). dtype z = List \<or> (\<exists>x\<in>set (a # ids). member_for ?lv x z)"
      using e1(2) e2(2) by auto
    show "\<forall>y. length (filter (member_for ?lv y) (rows (flush s) @ (ext1 @ ext2)))
                 \<le> max 1 (length (filter (member_for ?lv y) (rows (flush s))))"
      using cnt by blast
    show "find (named_list list_name) (rows (flush s) @ (ext1 @ ext2)) = Some l'"
      using find_append_Some [OF e1(3), of ext2] by simp
    show "pk_val l' = ?lv" by (rule e1(4))
  qed
qed

lemma remove_ids_from_list_find:
  "remove_ids_from_list s ids list_name =
     (case find (named_list list_name) (rows (flush s)) of
        None \<Rightarrow> (Inr (), flush s)
      | Some l \<Rightarrow> if ids = [] then (Inr (), flush s)
                  else (Inr (), remove_ids_loop (flush s) l ids))"
  by (simp add: remove_ids_from_list_def query_first_def Let_def named_list_iff)

lemma remove_ids_from_list_ok: "fst (remove_ids_from_list s ids list_name) = Inr ()"
  by (simp add: remove_ids_from_list_find split: option.splits)

lemma visible_named_list:
  "visible s List [(''name'', VStr list_name)] = filter (named_list list_name) (rows (flush s))"
  by (simp add: visible_def named_list_iff)

lemma find_filter: "find P xs = (case filter P xs of [] \<Rightarrow> None | x # _ \<Rightarrow> Some x)"
  by (induction xs) auto

lemma del_first_keeps:
  assumes dist: "distinct (map oref R)"
    and Q: "\<And>z. Q z \<Longrightarrow> dtype z \<noteq> ListMembership"
  shows "filter Q (del_first lv x R) = filter Q R"
proof (cases "find (member_for lv x) R")
  case None
  then show ?thesis by (simp add: del_first_def)
next
  case (Some m)
  from find_SomeD [OF Some] have m: "m \<in> set R" "dtype m = ListMembership"
    by (simp_all add: member_for_def member_of_def)
  have "oref z \<noteq> oref m" if "z \<in> set R" "Q z" for z
  proof
    assume "oref z = oref m"
    from distinct_oref_eq [OF dist that(1) m(1) this] have "z = m" .
    with Q [OF that(2)] m(2) show False by simp
  qed
  then have "filter Q (filter (\<lambda>z. oref z \<noteq> oref m) R) = filter Q R"
    unfolding filter_filter by (intro filter_cong [OF refl]) auto
  then show ?thesis by (simp add: del_first_def Some)
qed

lemma del_first_distinct: "distinct (map oref R) \<Longrightarrow> distinct (map oref (del_first lv x R))"
  by (simp add: del_first_def distinct_map_filter split: option.splits)

lemma foldl_del_first_keeps:
  assumes "distinct (map oref R)"
    and Q: "\<And>z. Q z \<Longrightarrow> dtype z \<noteq> ListMembership"
  shows "filter Q (foldl (\<lambda>R x. del_first lv x R) R xs) = filter Q R"
  using assms(1)
proof (induction xs arbitrary: R)
  case Nil
  then show ?case by simp
next
  case (Cons x xs)
  from Cons.IH [OF del_first_distinct [OF Cons.prems]]
  have "filter Q (foldl (\<lambda>R x. del_first lv x R) (del_first lv x R) xs) = filter Q (del_first lv x R)" .
  also have "\<dots> = filter Q R"
    by (rule del_first_keeps [OF Cons.prems Q])
  finally show ?case by simp
qed

lemma round_trip_rows:
  assumes others: "\<forall>z\<in>set R2. member_of lv z \<longrightarrow> (\<exists>x\<in>set ids. member_for lv x z)"
    and cnt: "\<forall>x\<in>set ids. length (filter (member_for lv x) R2) \<le> 1"
  shows "filter (member_of lv)
           (foldl (\<lambda>R x. del_first lv x R) (map (set_is_amazon r v) R2) ids) = []"
proof -
  let ?R4 = "map (set_is_amazon r v) R2"
  let ?R6 = "foldl (\<lambda>R x. del_first lv x R) ?R4 ids"
  have "\<not> member_of lv z" if z: "z \<in> set ?R6" for z
  proof
    assume mo: "member_of lv z"
    from z foldl_del_first_subset [of lv ?R4 ids] have "z \<in> set ?R4" by blast
    then obtain z0 where z0: "z0 \<in> set R2" "z = set_is_amazon r v z0" by auto
    with mo have "member_of lv z0" by simp
    with others z0(1) obtain x where x: "x \<in> set ids" "member_for lv x z0" by blast
    then have mf: "member_for lv x z" by (simp add: z0(2))
    have "filter (member_for lv x) ?R4 = map (set_is_amazon r v) (filter (member_for lv x) R2)"
      by (rule filter_map_upd_same) simp
    with cnt x(1) have "length (filter (member_for lv x) ?R4) \<le> 1" by simp
    from foldl_del_first_clears [OF x(1) this] have "filter (member_for lv x) ?R6 = []" .
    with z mf show False by (simp add: filter_empty_conv)
  qed
  then show ?thesis by (simp add: filter_empty_conv)
qed

lemma member_for_filter:
  "filter (member_for lv x) R = filter (\<lambda>m. attrs m ''listing_id'' = VInt x) (filter (member_of lv) R)"
  unfolding filter_filter by (intro filter_cong refl) (auto simp add: member_for_def)

lemma find_eq_filter_eq: "filter P xs = filter P ys \<Longrightarrow> find P xs = find P ys"
  by (simp add: find_filter)

lemma find_named_list_upd:
  "find (named_list n) (map (set_is_amazon r v) R) =
   map_option (set_is_amazon r v) (find (named_list n) R)"
  by (simp add: find_map)

text \<open>
  Claim C5, as amended. Take a well-formed session in which the list \<open>list_name\<close> has
  no membership for a listing other than \<open>a\<close> and \<open>b\<close>, and at most one for each of
  the two. Then \<open>add_ids_to_list\<close> with \<open>[a, b]\<close> followed by
  \<open>remove_ids_from_list\<close> with \<open>[a, b]\<close> raises nothing and leaves the list with no
  membership. In every session, \<open>remove_ids_from_list\<close> for a list name that the store
  does not have, with any ids, and \<open>remove_ids_from_list\<close> with no ids raise nothing
  and leave the session as a flush leaves it.
\<close>

theorem add_then_remove_round_trip:
  assumes fresh: "fresh_refs s"
    and dist: "distinct_refs s"
    and others: "\<forall>m\<in>set (list_memberships s list_name).
                   attrs m ''listing_id'' = VInt a \<or> attrs m ''listing_id'' = VInt b"
    and unique_a: "length (filter (\<lambda>m. attrs m ''listing_id'' = VInt a)
                     (list_memberships s list_name)) \<le> 1"
    and unique_b: "length (filter (\<lambda>m. attrs m ''listing_id'' = VInt b)
                     (list_memberships s list_name)) \<le> 1"
  shows "fst (add_ids_to_list s [a, b] list_name) = Inr ()
       \<and> fst (remove_ids_from_list (snd (add_ids_to_list s [a, b] list_name)) [a, b] list_name)
           = Inr ()
       \<and> list_memberships
           (snd (remove_ids_from_list (snd (add_ids_to_list s [a, b] list_name)) [a, b] list_name))
           list_name = []
       \<and> (visible s List [(''name'', VStr list_name)] = [] \<longrightarrow>
            remove_ids_from_list s ids list_name = (Inr (), flush s))
       \<and> remove_ids_from_list s [] list_name = (Inr (), flush s)"
proof -
  let ?lv = "list_key s list_name"
  let ?R0 = "rows (flush s)"
  let ?s4 = "snd (add_ids_to_list s [a, b] list_name)"
  let ?s6 = "snd (remove_ids_from_list ?s4 [a, b] list_name)"
  from add_ids_to_list_rows [OF fresh dist, of a "[b]" list_name] obtain r v ext l' where
    R4: "rows (flush ?s4) = map (set_is_amazon r v) (?R0 @ ext)"
    and d2: "distinct (map oref (?R0 @ ext))"
    and ex: "\<forall>z\<in>set ext. dtype z = List \<or> (\<exists>x\<in>set [a, b]. member_for ?lv x z)"
    and cnt: "\<forall>y. length (filter (member_for ?lv y) (?R0 @ ext))
                 \<le> max 1 (length (filter (member_for ?lv y) ?R0))"
    and fl: "find (named_list list_name) (?R0 @ ext) = Some l'"
    and pl: "pk_val l' = ?lv"
    by blast
  let ?R2 = "?R0 @ ext"
  let ?upd = "set_is_amazon r v"
  let ?R6 = "foldl (\<lambda>R x. del_first ?lv x R) (map ?upd ?R2) [a, b]"
  have f4: "find (named_list list_name) (rows (flush ?s4)) = Some (?upd l')"
    unfolding R4 by (simp only: find_named_list_upd fl option.map)
  have rm: "remove_ids_from_list ?s4 [a, b] list_name =
        (Inr (), remove_ids_loop (flush ?s4) (?upd l') [a, b])"
    by (simp add: remove_ids_from_list_find f4)
  have R6: "rows (flush ?s6) = ?R6"
    by (simp only: rm snd_conv remove_ids_loop_rows flush_flush R4 set_is_amazon_fields pl)
  have oth: "\<forall>z\<in>set ?R2. member_of ?lv z \<longrightarrow> (\<exists>x\<in>set [a, b]. member_for ?lv x z)"
  proof (intro ballI impI)
    fix z assume z: "z \<in> set ?R2" and mo: "member_of ?lv z"
    show "\<exists>x\<in>set [a, b]. member_for ?lv x z"
    proof (cases "z \<in> set ?R0")
      case True
      with mo have "z \<in> set (list_memberships s list_name)"
        by (simp add: list_memberships_def)
      with others have "attrs z ''listing_id'' = VInt a \<or> attrs z ''listing_id'' = VInt b"
        by blast
      with mo show ?thesis by (auto simp add: member_for_def)
    next
      case False
      with z have "z \<in> set ext" by simp
      with ex mo show ?thesis by (auto simp add: member_of_def)
    qed
  qed
  have c0: "length (filter (member_for ?lv x) ?R0) \<le> 1" if "x \<in> set [a, b]" for x
    using that unique_a unique_b
    by (auto simp add: member_for_filter [of ?lv _ ?R0] list_memberships_def)
  have c2: "\<forall>x\<in>set [a, b]. length (filter (member_for ?lv x) ?R2) \<le> 1"
  proof
    fix x assume x: "x \<in> set [a, b]"
    from cnt have "length (filter (member_for ?lv x) ?R2)
        \<le> max 1 (length (filter (member_for ?lv x) ?R0))" by blast
    with c0 [OF x] show "length (filter (member_for ?lv x) ?R2) \<le> 1" by simp
  qed
  have zero: "filter (member_of ?lv) ?R6 = []"
    by (rule round_trip_rows [OF oth c2])
  have "distinct (map oref (map ?upd ?R2))"
    using d2 by (simp add: comp_def)
  then have "filter (named_list list_name) ?R6 = filter (named_list list_name) (map ?upd ?R2)"
    by (rule foldl_del_first_keeps) (simp add: named_list_def)
  then have "find (named_list list_name) ?R6 = find (named_list list_name) (map ?upd ?R2)"
    by (rule find_eq_filter_eq)
  also have "\<dots> = Some (?upd l')"
    by (simp only: find_named_list_upd fl option.map)
  finally have "find (named_list list_name) (rows (flush ?s6)) = Some (?upd l')"
    by (simp only: R6)
  then have key6: "list_key ?s6 list_name = ?lv"
    by (simp add: list_key_def pl)
  have m6: "list_memberships ?s6 list_name = []"
    by (simp only: list_memberships_def key6 R6 zero)
  have ok_add: "fst (add_ids_to_list s [a, b] list_name) = Inr ()"
    by (simp only: add_ids_to_list_nonempty fst_conv)
  have noop1: "remove_ids_from_list s ids list_name = (Inr (), flush s)"
    if "visible s List [(''name'', VStr list_name)] = []"
    using that by (simp add: remove_ids_from_list_find visible_named_list find_None_filter [symmetric])
  have noop2: "remove_ids_from_list s [] list_name = (Inr (), flush s)"
    by (simp add: remove_ids_from_list_find split: option.splits)
  from ok_add remove_ids_from_list_ok [of ?s4 "[a, b]" list_name] m6 noop1 noop2
  show ?thesis by blast
qed

lemma list_memberships_empty_session: "list_memberships empty_session n = []"
  by (simp add: list_memberships_def flush_empty_session) (simp add: empty_session_def)

lemma visible_empty_session: "visible empty_session d kwargs = []"
  by (simp add: visible_def flush_empty_session) (simp add: empty_session_def)

lemma two_memberships_after_add:
  "length (list_memberships (snd (add_ids_to_list empty_session [4, 5] ''L'')) ''L'') = 2"
  by code_simp

text \<open>
  The theorem on an empty store, for the listings 4 and 5 and the list name \<open>L\<close>:
  after \<open>add_ids_to_list\<close> the list has two memberships, after
  \<open>remove_ids_from_list\<close> none.
\<close>

theorem add_then_remove_round_trip_witness:
  "fresh_refs empty_session \<and> distinct_refs empty_session
   \<and> list_memberships empty_session ''L'' = []
   \<and> fst (add_ids_to_list empty_session [4, 5] ''L'') = Inr ()
   \<and> length (list_memberships (snd (add_ids_to_list empty_session [4, 5] ''L'')) ''L'') = 2
   \<and> list_memberships
        (snd (remove_ids_from_list (snd (add_ids_to_list empty_session [4, 5] ''L'')) [4, 5] ''L''))
        ''L'' = []
   \<and> remove_ids_from_list empty_session [4, 5] ''L'' = (Inr (), empty_session)"
proof -
  have o: "\<forall>m\<in>set (list_memberships empty_session ''L'').
             attrs m ''listing_id'' = VInt 4 \<or> attrs m ''listing_id'' = VInt 5"
    by (simp add: list_memberships_empty_session)
  have u4: "length (filter (\<lambda>m. attrs m ''listing_id'' = VInt 4)
              (list_memberships empty_session ''L'')) \<le> 1"
    by (simp add: list_memberships_empty_session)
  have u5: "length (filter (\<lambda>m. attrs m ''listing_id'' = VInt 5)
              (list_memberships empty_session ''L'')) \<le> 1"
    by (simp add: list_memberships_empty_session)
  note t = add_then_remove_round_trip [OF fresh_refs_empty_session distinct_refs_empty_session
      o u4 u5, of "[4, 5]"]
  from t have 1: "fst (add_ids_to_list empty_session [4, 5] ''L'') = Inr ()" by blast
  from t have 2: "list_memberships
        (snd (remove_ids_from_list (snd (add_ids_to_list empty_session [4, 5] ''L'')) [4, 5] ''L''))
        ''L'' = []" by blast
  from t visible_empty_session [of List "[(''name'', VStr ''L'')]"]
  have "remove_ids_from_list empty_session [4, 5] ''L'' = (Inr (), flush empty_session)"
    by blast
  then have 3: "remove_ids_from_list empty_session [4, 5] ''L'' = (Inr (), empty_session)"
    by (simp only: flush_empty_session)
  from fresh_refs_empty_session distinct_refs_empty_session
    list_memberships_empty_session [of "''L''"] 1 two_memberships_after_add 2 3
  show ?thesis by blast
qed

text \<open>
  Claim C5 as it is written speaks of every list. When the list \<open>L\<close> has a membership
  for the listing 9 before \<open>add_ids_to_list\<close> with \<open>[4, 5]\<close>, that membership is
  still there after \<open>remove_ids_from_list\<close> with \<open>[4, 5]\<close>: the list is left with one
  membership, not with none.
\<close>

theorem add_then_remove_other_member_counterexample:
  "fst (add_ids_to_list member_session [4, 5] ''L'') = Inr ()
   \<and> fst (remove_ids_from_list (snd (add_ids_to_list member_session [4, 5] ''L'')) [4, 5] ''L'')
       = Inr ()
   \<and> map (\<lambda>m. attrs m ''listing_id'')
       (list_memberships
          (snd (remove_ids_from_list (snd (add_ids_to_list member_session [4, 5] ''L'')) [4, 5] ''L''))
          ''L'') = [VInt 9]"
  by code_simp

end
